theory Spec2Isabelle
  imports Main "HOL-Library.Word"
begin

unbundle bit_operations_syntax

section \<open>The lzop block indexer (indexer.go)\<close>

text \<open>
  A shallow embedding of package \<open>lzo\<close>'s indexer: the header parser \<open>readHeader\<close>,
  the block scanner \<open>findBlock\<close>, and the entry point \<open>CreateIndex\<close> with its scan
  loop and index writer. Go's \<open>uint8\<close>, \<open>uint16\<close>, \<open>uint32\<close> and \<open>uint64\<close> are
  words of that width. An \<open>int64\<close> file offset is an \<open>int\<close>: every offset the code computes
  is at most the file's length plus \<open>2^32 + 16\<close>, far below \<open>2^63\<close> for any file an
  operating system can hold, so no offset wraps. The \<open>uint\<close> checksum counts are at most 2
  and are \<open>nat\<close>.
\<close>

type_synonym byte = "8 word"

type_synonym uint16 = "16 word"

type_synonym uint32 = "32 word"

type_synonym uint64 = "64 word"

subsection \<open>Errors and panics\<close>

text \<open>
  Go error values: \<open>io.EOF\<close>, \<open>io.ErrUnexpectedEOF\<close>, a value made by \<open>errors.New\<close>
  with its message, and the operating system's errors of \<open>os.Open\<close>, \<open>os.Create\<close> and
  \<open>Seek\<close>. A run-time panic is not an error value: it unwinds \<open>CreateIndex\<close> and the
  caller gets no return value.
\<close>

datatype error =
    EOF
  | ErrUnexpectedEOF
  | ErrorsNew string
  | ErrNotExist
  | ErrPermission
  | ErrSeek

datatype panic = NilPointerDereference | IndexOutOfRange

datatype outcome = Return "error option" | Panic panic

subsection \<open>Package constants\<close>

definition version :: int where "version = 0x1030"

definition flagAdler32D :: uint32 where "flagAdler32D = push_bit 0 1"

definition flagAdler32C :: uint32 where "flagAdler32C = push_bit 1 1"

definition flagCRC32D :: uint32 where "flagCRC32D = push_bit 8 1"

definition flagCRC32C :: uint32 where "flagCRC32C = push_bit 9 1"

definition flagFilter :: uint32 where "flagFilter = push_bit 11 1"

definition flagCRC32 :: uint32 where "flagCRC32 = push_bit 12 1"

definition lzoMagic :: "byte list" where
  "lzoMagic = [0x89, 0x4c, 0x5a, 0x4f, 0x00, 0x0d, 0x0a, 0x1a, 0x0a]"

subsection \<open>The standard library's checksums and byte order\<close>

text \<open>
  \<open>hash/adler32\<close>: the digest is a \<open>uint32\<close> holding \<open>s2 << 16 | s1\<close>; \<open>Reset\<close> sets
  it to 1; a write adds every byte to \<open>s1\<close> and \<open>s1\<close> to \<open>s2\<close>, modulo 65521 (the library
  reduces once per 5552 bytes, which no sum observes).
\<close>

definition adler32_step :: "byte \<Rightarrow> nat \<times> nat \<Rightarrow> nat \<times> nat" where
  "adler32_step x s = (let s1 = (fst s + unat x) mod 65521 in (s1, (snd s + s1) mod 65521))"

definition adler32_upd :: "uint32 \<Rightarrow> byte list \<Rightarrow> uint32" where
  "adler32_upd d p =
     (let s = fold adler32_step p (unat (d AND 0xffff), unat (drop_bit 16 d))
      in push_bit 16 (of_nat (snd s)) OR of_nat (fst s))"

text \<open>
  \<open>hash/crc32\<close> with the IEEE polynomial: the table entry of a byte, the byte-wise
  update, and \<open>Update\<close>, which complements the state before and after. \<open>Reset\<close> sets the
  state to 0.
\<close>

definition crc32_bit :: "uint32 \<Rightarrow> uint32" where
  "crc32_bit c = (if c AND 1 = 1 then drop_bit 1 c XOR 0xedb88320 else drop_bit 1 c)"

definition crc32_table :: "byte \<Rightarrow> uint32" where
  "crc32_table i = (crc32_bit ^^ 8) (ucast i)"

definition simpleUpdate :: "uint32 \<Rightarrow> byte list \<Rightarrow> uint32" where
  "simpleUpdate crc p =
     fold (\<lambda>v c. crc32_table ((ucast c :: byte) XOR v) XOR drop_bit 8 c) p crc"

definition crc32_upd :: "uint32 \<Rightarrow> byte list \<Rightarrow> uint32" where
  "crc32_upd crc p = NOT (simpleUpdate (NOT crc) p)"

text \<open>
  \<open>binary.BigEndian\<close>. The decoders are applied to the bytes \<open>binary.Read\<close> has just
  read, a list of exactly the width of the value. \<open>PutUint64\<close> panics on a slice shorter
  than 8 bytes (its bounds check \<open>b[7]\<close>) and otherwise overwrites the first 8 bytes.
\<close>

definition Uint16 :: "byte list \<Rightarrow> uint16" where
  "Uint16 b = ucast (b ! 1) OR push_bit 8 (ucast (b ! 0))"

definition Uint32 :: "byte list \<Rightarrow> uint32" where
  "Uint32 b = ucast (b ! 3) OR push_bit 8 (ucast (b ! 2)) OR push_bit 16 (ucast (b ! 1))
     OR push_bit 24 (ucast (b ! 0))"

definition PutUint64 :: "byte list \<Rightarrow> uint64 \<Rightarrow> panic + byte list" where
  "PutUint64 b v =
     (if length b < 8 then Inl IndexOutOfRange
      else Inr ([ucast (drop_bit 56 v), ucast (drop_bit 48 v), ucast (drop_bit 40 v),
                 ucast (drop_bit 32 v), ucast (drop_bit 24 v), ucast (drop_bit 16 v),
                 ucast (drop_bit 8 v), ucast v] @ drop 8 b))"

subsection \<open>Files and the indexer's state\<close>

text \<open>
  An open \<open>os.File\<close>: its bytes, the kernel's offset, and whether the descriptor can seek
  (a pipe cannot: \<open>Seek\<close> fails on it). A read at or past the end returns no byte.
\<close>

record os_file =
  content :: "byte list"
  fpos :: nat
  seekable :: bool

text \<open>
  \<open>Indexer\<close> with the embedded \<open>IndexHeader\<close>. The field \<open>version\<close> of the header is
  \<open>version_f\<close> here, to keep it apart from the package constant \<open>version\<close>, as Go's
  \<open>z.version\<close> and \<open>version\<close> are; the field \<open>method\<close> is \<open>method_f\<close>, since the
  name is a keyword of Isabelle. The reader \<open>r\<close> is the tee of \<open>f\<close> into both hashes
  and is modelled by \<open>ReadFull\<close>; the scratch buffer \<open>buf\<close> and the unused \<open>hist\<close> hold
  nothing that is read back. \<open>printed\<close> is what \<open>fmt.Println\<close> has written.
\<close>

record Indexer =
  ModTime :: int
  Name :: "byte list"
  flags :: uint32
  version_f :: uint16
  libraryVersion :: uint16
  method_f :: byte
  num_compressed_checksums :: nat
  num_decompressed_checksums :: nat
  f :: os_file
  indexes :: "int list"
  adler32 :: uint32
  crc32 :: uint32
  err :: "error option"
  printed :: "int list"

text \<open>
  \<open>io.ReadFull(z.r, buf[0:n])\<close>: the bytes read advance the file and are written to both
  hashes; fewer than \<open>n\<close> bytes are \<open>io.EOF\<close> when none was read and
  \<open>io.ErrUnexpectedEOF\<close> otherwise.
\<close>

definition ReadFull :: "nat \<Rightarrow> Indexer \<Rightarrow> (error + byte list) \<times> Indexer" where
  "ReadFull n z =
     (let got = take n (drop (fpos (f z)) (content (f z)));
          z' = z\<lparr>f := (f z)\<lparr>fpos := fpos (f z) + length got\<rparr>,
                 adler32 := adler32_upd (adler32 z) got,
                 crc32 := crc32_upd (crc32 z) got\<rparr>
      in if length got = n then (Inr got, z')
         else if got = [] then (Inl EOF, z')
         else (Inl ErrUnexpectedEOF, z'))"

text \<open>\<open>z.read(&x)\<close>, that is \<open>binary.Read(z.r, binary.BigEndian, &x)\<close>, at each type.\<close>

definition read_uint8 :: "Indexer \<Rightarrow> (error + byte) \<times> Indexer" where
  "read_uint8 z = (case ReadFull 1 z of (Inl e, z') \<Rightarrow> (Inl e, z') | (Inr bs, z') \<Rightarrow> (Inr (bs ! 0), z'))"

definition read_uint16 :: "Indexer \<Rightarrow> (error + uint16) \<times> Indexer" where
  "read_uint16 z = (case ReadFull 2 z of (Inl e, z') \<Rightarrow> (Inl e, z') | (Inr bs, z') \<Rightarrow> (Inr (Uint16 bs), z'))"

definition read_uint32 :: "Indexer \<Rightarrow> (error + uint32) \<times> Indexer" where
  "read_uint32 z = (case ReadFull 4 z of (Inl e, z') \<Rightarrow> (Inl e, z') | (Inr bs, z') \<Rightarrow> (Inr (Uint32 bs), z'))"

text \<open>\<open>f.Seek(0, os.SEEK_CUR)\<close> and \<open>f.Seek(off, os.SEEK_SET)\<close>.\<close>

definition Seek_cur :: "os_file \<Rightarrow> error + int" where
  "Seek_cur fl = (if seekable fl then Inr (int (fpos fl)) else Inl ErrSeek)"

definition Seek_set :: "int \<Rightarrow> os_file \<Rightarrow> (error + int) \<times> os_file" where
  "Seek_set off fl =
     (if seekable fl \<and> 0 \<le> off then (Inr off, fl\<lparr>fpos := nat off\<rparr>) else (Inl ErrSeek, fl))"

subsection \<open>The header parser\<close>

text \<open>
  Sequencing of fallible steps inside \<open>readHeader\<close>: the first error is returned, and the
  caller \<open>NewIndexer\<close> then drops the indexer.
\<close>

definition then_read :: "(error + 'a) \<times> Indexer \<Rightarrow> ('a \<Rightarrow> Indexer \<Rightarrow> error + Indexer) \<Rightarrow> error + Indexer" where
  "then_read r k = (case r of (Inl e, z) \<Rightarrow> Inl e | (Inr v, z) \<Rightarrow> k v z)"

definition and_then :: "error + Indexer \<Rightarrow> (Indexer \<Rightarrow> error + Indexer) \<Rightarrow> error + Indexer" where
  "and_then r k = (case r of Inl e \<Rightarrow> Inl e | Inr z \<Rightarrow> k z)"

text \<open>
  \<open>readHeader\<close>, one definition for each commented section of the source, in the
  source's order. The three thresholds \<open>0x0900\<close>, \<open>0x0940\<close> and \<open>0x0120\<close> are compared
  with the package constant \<open>version\<close>, as the source writes them; the two checks of
  \<open>libraryVersion\<close> use the fields. \<open>ModTime\<close> is in seconds since the epoch.
\<close>

definition read_magic :: "Indexer \<Rightarrow> error + Indexer" where
  "read_magic z0 =
     then_read (ReadFull (length lzoMagic) z0) (\<lambda>magic z.
       if magic \<noteq> lzoMagic then Inl (ErrorsNew ''lzo: invalid header'')
       else Inr (z\<lparr>crc32 := 0, adler32 := 1\<rparr>))"

definition read_version :: "Indexer \<Rightarrow> error + Indexer" where
  "read_version z0 =
     then_read (read_uint16 z0) (\<lambda>v z.
       let z = z\<lparr>version_f := v\<rparr>
       in if version < 0x0900 then Inl (ErrorsNew ''lzo: invalid header'') else Inr z)"

definition read_library_version :: "Indexer \<Rightarrow> error + Indexer" where
  "read_library_version z0 =
     and_then (then_read (read_uint16 z0) (\<lambda>v z. Inr (z\<lparr>libraryVersion := v\<rparr>))) (\<lambda>z.
       if version \<ge> 0x0940
       then then_read (read_uint16 z) (\<lambda>v z.
         let z = z\<lparr>libraryVersion := v\<rparr>
         in if libraryVersion z > version_f z then Inl (ErrorsNew ''lzo: incompatible version'')
            else if libraryVersion z < 0x0900 then Inl (ErrorsNew ''lzo: invalid header'')
            else Inr z)
       else Inr z)"

definition read_method :: "Indexer \<Rightarrow> error + Indexer" where
  "read_method z0 = then_read (read_uint8 z0) (\<lambda>v z. Inr (z\<lparr>method_f := v\<rparr>))"

definition read_level :: "Indexer \<Rightarrow> error + Indexer" where
  "read_level z0 =
     (if version \<ge> 0x0940 then then_read (read_uint8 z0) (\<lambda>level z. Inr z) else Inr z0)"

definition read_flags :: "Indexer \<Rightarrow> error + Indexer" where
  "read_flags z0 = then_read (read_uint32 z0) (\<lambda>v z. Inr (z\<lparr>flags := v\<rparr>))"

definition read_filters :: "Indexer \<Rightarrow> error + Indexer" where
  "read_filters z0 =
     (if flags z0 AND flagFilter \<noteq> 0
      then then_read (read_uint32 z0) (\<lambda>filters z. Inr z) else Inr z0)"

definition read_num_compressed_checksums :: "Indexer \<Rightarrow> Indexer" where
  "read_num_compressed_checksums z0 =
     (let z = z0\<lparr>num_compressed_checksums := 0\<rparr>;
          z = (if flags z AND flagAdler32C \<noteq> 0
               then z\<lparr>num_compressed_checksums := num_compressed_checksums z + 1\<rparr> else z);
          z = (if flags z AND flagCRC32C \<noteq> 0
               then z\<lparr>num_compressed_checksums := num_compressed_checksums z + 1\<rparr> else z)
      in z)"

definition read_num_decompressed_checksums :: "Indexer \<Rightarrow> Indexer" where
  "read_num_decompressed_checksums z0 =
     (let z = z0\<lparr>num_decompressed_checksums := 0\<rparr>;
          z = (if flags z AND flagAdler32D \<noteq> 0
               then z\<lparr>num_decompressed_checksums := num_decompressed_checksums z + 1\<rparr> else z);
          z = (if flags z AND flagCRC32D \<noteq> 0
               then z\<lparr>num_decompressed_checksums := num_decompressed_checksums z + 1\<rparr> else z)
      in z)"

definition read_mode :: "Indexer \<Rightarrow> error + Indexer" where
  "read_mode z0 = then_read (read_uint32 z0) (\<lambda>mode z. Inr z)"

definition read_modification_times :: "Indexer \<Rightarrow> error + Indexer" where
  "read_modification_times z0 =
     then_read (read_uint32 z0) (\<lambda>modTime z. Inr (z\<lparr>ModTime := uint modTime\<rparr>))"

definition read_mod_time_high :: "Indexer \<Rightarrow> error + Indexer" where
  "read_mod_time_high z0 =
     and_then (if version \<ge> 0x0940
               then then_read (read_uint32 z0) (\<lambda>modTimeHigh z. Inr z) else Inr z0) (\<lambda>z.
       Inr (if version < 0x0120 then z\<lparr>ModTime := 0\<rparr> else z))"

definition read_name :: "Indexer \<Rightarrow> error + Indexer" where
  "read_name z0 =
     then_read (read_uint8 z0) (\<lambda>l z.
       if l > 0 then then_read (ReadFull (unat l) z) (\<lambda>name z. Inr (z\<lparr>Name := name\<rparr>))
       else Inr z)"

definition check_header_checksum :: "Indexer \<Rightarrow> error + Indexer" where
  "check_header_checksum z0 =
     (let checksum = (if flags z0 AND flagCRC32 \<noteq> 0 then crc32 z0 else adler32 z0);
          z = (if flags z0 AND flagCRC32 \<noteq> 0 then z0\<lparr>crc32 := 0\<rparr> else z0\<lparr>adler32 := 1\<rparr>)
      in then_read (read_uint32 z) (\<lambda>checksumHeader z.
           if checksumHeader \<noteq> checksum then Inl (ErrorsNew ''lzo: invalid header'')
           else if method_f z \<le> 0 then Inl (ErrorsNew ''lzo: incompatible method'')
           else Inr z))"

definition readHeader :: "Indexer \<Rightarrow> error + Indexer" where
  "readHeader z0 =
     and_then (read_magic z0) (\<lambda>z.
     and_then (read_version z) (\<lambda>z.
     and_then (read_library_version z) (\<lambda>z.
     and_then (read_method z) (\<lambda>z.
     and_then (read_level z) (\<lambda>z.
     and_then (read_flags z) (\<lambda>z.
     and_then (read_filters z) (\<lambda>z.
     and_then (Inr (read_num_compressed_checksums z)) (\<lambda>z.
     and_then (Inr (read_num_decompressed_checksums z)) (\<lambda>z.
     and_then (read_mode z) (\<lambda>z.
     and_then (read_modification_times z) (\<lambda>z.
     and_then (read_mod_time_high z) (\<lambda>z.
     and_then (read_name z) check_header_checksum))))))))))))"

text \<open>
  \<open>NewIndexer\<close>: a zero-valued indexer with fresh hashes on the file; \<open>Inl\<close> is the
  pair of a nil indexer and the error. The zero \<open>time.Time\<close> is year 1.
\<close>

definition NewIndexer :: "os_file \<Rightarrow> error + Indexer" where
  "NewIndexer fl =
     readHeader \<lparr>ModTime = - 62135596800, Name = [], flags = 0, version_f = 0,
       libraryVersion = 0, method_f = 0, num_compressed_checksums = 0,
       num_decompressed_checksums = 0, f = fl, indexes = [], adler32 = 1, crc32 = 0,
       err = None, printed = []\<rparr>"

subsection \<open>The block scanner\<close>

text \<open>
  \<open>findBlock\<close> returns its error and leaves it in \<open>z.err\<close>. The result of the last
  \<open>Seek\<close> is dropped, as in the source.
\<close>

definition findBlock :: "Indexer \<Rightarrow> error option \<times> Indexer" where
  "findBlock z0 =
     (case read_uint32 z0 of
        (Inl e, z) \<Rightarrow> (Some e, z\<lparr>err := Some e\<rparr>)
      | (Inr dstLen, z) \<Rightarrow>
         let z = z\<lparr>err := None\<rparr> in
         if dstLen = 0 then (Some EOF, z\<lparr>err := Some EOF\<rparr>)
         else
          (case read_uint32 z of
             (Inl e, z) \<Rightarrow> (Some e, z\<lparr>err := Some e\<rparr>)
           | (Inr srcLen, z) \<Rightarrow>
              let z = z\<lparr>err := None\<rparr> in
              if srcLen \<le> 0 \<or> srcLen > dstLen
              then (Some (ErrorsNew ''lzo: data corruption''),
                    z\<lparr>err := Some (ErrorsNew ''lzo: data corruption'')\<rparr>)
              else
                let num_chksms_to_skip = num_decompressed_checksums z;
                    num_chksms_to_skip =
                      (if dstLen = srcLen then num_chksms_to_skip + num_compressed_checksums z
                       else num_chksms_to_skip);
                    skip = 4 * num_chksms_to_skip
                in
                (case Seek_cur (f z) of
                   Inl e \<Rightarrow> (Some e, z\<lparr>err := Some e\<rparr>)
                 | Inr position \<Rightarrow>
                    let z = z\<lparr>err := None, printed := printed z @ [position]\<rparr>;
                        block_start = position - 8;
                        next_block = position + uint srcLen + int skip;
                        z = z\<lparr>indexes := indexes z @ [block_start]\<rparr>;
                        z = z\<lparr>f := snd (Seek_set next_block (f z))\<rparr>
                    in (None, z))))"

section \<open>The scan loop\<close>

text \<open>
  The bytes of the file that are not read yet, and the indexer after it has read \<open>bs\<close>:
  the two notions in which the lemmas on \<open>ReadFull\<close> and \<open>findBlock\<close> are stated.
\<close>

definition remaining :: "Indexer \<Rightarrow> byte list" where
  "remaining z = drop (fpos (f z)) (content (f z))"

definition consumed :: "byte list \<Rightarrow> Indexer \<Rightarrow> Indexer" where
  "consumed bs z = z\<lparr>f := (f z)\<lparr>fpos := fpos (f z) + length bs\<rparr>,
                 adler32 := adler32_upd (adler32 z) bs,
                 crc32 := crc32_upd (crc32 z) bs\<rparr>"

text \<open>
  What no step of the header parser changes: the bytes of the file, whether it can seek,
  the offsets recorded and the error.
\<close>

definition same_file :: "Indexer \<Rightarrow> Indexer \<Rightarrow> bool" where
  "same_file z z' \<longleftrightarrow>
     content (f z') = content (f z) \<and> seekable (f z') = seekable (f z) \<and>
     indexes z' = indexes z \<and> err z' = err z"

lemma ReadFull_ok:
  "n \<le> length (remaining z) \<Longrightarrow> ReadFull n z = (Inr (take n (remaining z)), consumed (take n (remaining z)) z)"
  by (simp add: ReadFull_def remaining_def consumed_def Let_def)

lemma ReadFull_short:
  "length (remaining z) < n \<Longrightarrow>
   ReadFull n z = (Inl (if remaining z = [] then EOF else ErrUnexpectedEOF), consumed (remaining z) z)"
  by (simp add: ReadFull_def remaining_def consumed_def Let_def)

lemma remaining_consumed:
  "remaining (consumed bs z) = drop (length bs) (remaining z)"
  by (simp add: remaining_def consumed_def add.commute)

lemma consumed_proj [simp]:
  "indexes (consumed bs z) = indexes z"
  "err (consumed bs z) = err z"
  "printed (consumed bs z) = printed z"
  "num_compressed_checksums (consumed bs z) = num_compressed_checksums z"
  "num_decompressed_checksums (consumed bs z) = num_decompressed_checksums z"
  "content (f (consumed bs z)) = content (f z)"
  "seekable (f (consumed bs z)) = seekable (f z)"
  "fpos (f (consumed bs z)) = fpos (f z) + length bs"
  "flags (consumed bs z) = flags z"
  "method_f (consumed bs z) = method_f z"
  "version_f (consumed bs z) = version_f z"
  "libraryVersion (consumed bs z) = libraryVersion z"
  "adler32 (consumed bs z) = adler32_upd (adler32 z) bs"
  "crc32 (consumed bs z) = crc32_upd (crc32 z) bs"
  by (simp_all add: consumed_def)

lemma read_uint32_ok:
  "4 \<le> length (remaining z) \<Longrightarrow>
   read_uint32 z = (Inr (Uint32 (take 4 (remaining z))), consumed (take 4 (remaining z)) z)"
  by (simp add: read_uint32_def ReadFull_ok)

lemma read_uint32_short:
  "length (remaining z) < 4 \<Longrightarrow>
   read_uint32 z = (Inl (if remaining z = [] then EOF else ErrUnexpectedEOF), consumed (remaining z) z)"
  by (simp add: read_uint32_def ReadFull_short)

lemma remaining_upd [simp]:
  "remaining (z\<lparr>err := e\<rparr>) = remaining z"
  by (simp add: remaining_def)

lemma f_consumed: "f (consumed bs z) = (f z)\<lparr>fpos := fpos (f z) + length bs\<rparr>"
  by (simp add: consumed_def)

lemma nat_offset:
  "nat (8 + int a + uint (w::uint32) + 4 * int c) = a + 8 + 4 * c + unat w"
proof -
  have "uint w = int (unat w)" by simp
  then show ?thesis by linarith
qed

lemma findBlock_ok:
  assumes "8 \<le> length (remaining z)"
    and "dstLen = Uint32 (take 4 (remaining z))"
    and "srcLen = Uint32 (take 4 (drop 4 (remaining z)))"
    and "dstLen \<noteq> 0" "srcLen \<noteq> 0" "srcLen \<le> dstLen" "seekable (f z)"
  shows "findBlock z = (None, 
     (consumed (take 4 (drop 4 (remaining z))) ((consumed (take 4 (remaining z)) z)\<lparr>err := None\<rparr>))
       \<lparr>err := None, printed := printed z @ [int (fpos (f z)) + 8],
         indexes := indexes z @ [int (fpos (f z))],
         f := (f z)\<lparr>fpos := fpos (f z) + 8 +
            4 * (num_decompressed_checksums z + (if dstLen = srcLen then num_compressed_checksums z else 0)) + unat srcLen\<rparr>\<rparr>)"
proof -
  have c: "\<not> (srcLen \<le> 0 \<or> srcLen > dstLen)"
    using assms(5,6) by (simp add: not_less)
  have r1: "read_uint32 z = (Inr dstLen, consumed (take 4 (remaining z)) z)"
    using assms(1,2) by (simp add: read_uint32_ok)
  have r2: "read_uint32 ((consumed (take 4 (remaining z)) z)\<lparr>err := None\<rparr>)
     = (Inr srcLen, consumed (take 4 (drop 4 (remaining z))) ((consumed (take 4 (remaining z)) z)\<lparr>err := None\<rparr>))"
    using assms(1,3) by (simp add: read_uint32_ok remaining_consumed)
  have l: "length (take 4 (remaining z)) = 4" "length (take 4 (drop 4 (remaining z))) = 4"
    using assms(1) by simp_all
  show ?thesis
    unfolding findBlock_def r1 prod.case sum.case Let_def
    using assms(4) apply (simp only: if_False r2 prod.case sum.case c)
    using assms(7) l apply (simp add: Seek_cur_def Seek_set_def f_consumed nat_offset)
    done
qed

lemma findBlock_short1:
  assumes "length (remaining z) < 4"
  shows "findBlock z = (Some (if remaining z = [] then EOF else ErrUnexpectedEOF),
           (consumed (remaining z) z)\<lparr>err := Some (if remaining z = [] then EOF else ErrUnexpectedEOF)\<rparr>)"
  using assms by (simp add: findBlock_def read_uint32_short)

lemma findBlock_sentinel:
  assumes "4 \<le> length (remaining z)" "Uint32 (take 4 (remaining z)) = 0"
  shows "findBlock z = (Some EOF, (consumed (take 4 (remaining z)) z)\<lparr>err := Some EOF\<rparr>)"
  using assms by (simp add: findBlock_def read_uint32_ok)

lemma findBlock_short2:
  assumes "4 \<le> length (remaining z)" "Uint32 (take 4 (remaining z)) \<noteq> 0"
    and "length (remaining z) < 8"
  shows "findBlock z = (Some (if length (remaining z) = 4 then EOF else ErrUnexpectedEOF),
           (consumed (drop 4 (remaining z)) (consumed (take 4 (remaining z)) z))
             \<lparr>err := Some (if length (remaining z) = 4 then EOF else ErrUnexpectedEOF)\<rparr>)"
proof -
  have r1: "read_uint32 z = (Inr (Uint32 (take 4 (remaining z))), consumed (take 4 (remaining z)) z)"
    using assms(1) by (simp add: read_uint32_ok)
  have r2: "read_uint32 ((consumed (take 4 (remaining z)) z)\<lparr>err := None\<rparr>)
     = (Inl (if length (remaining z) = 4 then EOF else ErrUnexpectedEOF),
        consumed (drop 4 (remaining z)) ((consumed (take 4 (remaining z)) z)\<lparr>err := None\<rparr>))"
    using assms(1,3) by (simp add: read_uint32_short remaining_consumed)
  show ?thesis
    unfolding findBlock_def r1 prod.case sum.case Let_def
    using assms(2) apply (simp only: if_False r2 prod.case sum.case)
    apply (simp add: consumed_def)
    done
qed

lemma findBlock_corrupt:
  assumes "8 \<le> length (remaining z)"
    and "dstLen = Uint32 (take 4 (remaining z))"
    and "srcLen = Uint32 (take 4 (drop 4 (remaining z)))"
    and "dstLen \<noteq> 0" "srcLen = 0 \<or> srcLen > dstLen"
  shows "findBlock z = (Some (ErrorsNew ''lzo: data corruption''),
     (consumed (take 4 (drop 4 (remaining z))) (consumed (take 4 (remaining z)) z))
       \<lparr>err := Some (ErrorsNew ''lzo: data corruption'')\<rparr>)"
proof -
  have c: "srcLen \<le> 0 \<or> srcLen > dstLen"
    using assms(5) by auto
  have r1: "read_uint32 z = (Inr dstLen, consumed (take 4 (remaining z)) z)"
    using assms(1,2) by (simp add: read_uint32_ok)
  have r2: "read_uint32 ((consumed (take 4 (remaining z)) z)\<lparr>err := None\<rparr>)
     = (Inr srcLen, consumed (take 4 (drop 4 (remaining z))) ((consumed (take 4 (remaining z)) z)\<lparr>err := None\<rparr>))"
    using assms(1,3) by (simp add: read_uint32_ok remaining_consumed)
  show ?thesis
    unfolding findBlock_def r1 prod.case sum.case Let_def
    using assms(4) apply (simp only: if_False r2 prod.case sum.case)
    using c apply (simp only: if_True)
    apply (simp add: consumed_def)
    done
qed

lemma findBlock_noseek:
  assumes "8 \<le> length (remaining z)"
    and "dstLen = Uint32 (take 4 (remaining z))"
    and "srcLen = Uint32 (take 4 (drop 4 (remaining z)))"
    and "dstLen \<noteq> 0" "srcLen \<noteq> 0" "srcLen \<le> dstLen" "\<not> seekable (f z)"
  shows "findBlock z = (Some ErrSeek,
     (consumed (take 4 (drop 4 (remaining z))) (consumed (take 4 (remaining z)) z))
       \<lparr>err := Some ErrSeek\<rparr>)"
proof -
  have c: "\<not> (srcLen \<le> 0 \<or> srcLen > dstLen)"
    using assms(5,6) by (simp add: not_less)
  have r1: "read_uint32 z = (Inr dstLen, consumed (take 4 (remaining z)) z)"
    using assms(1,2) by (simp add: read_uint32_ok)
  have r2: "read_uint32 ((consumed (take 4 (remaining z)) z)\<lparr>err := None\<rparr>)
     = (Inr srcLen, consumed (take 4 (drop 4 (remaining z))) ((consumed (take 4 (remaining z)) z)\<lparr>err := None\<rparr>))"
    using assms(1,3) by (simp add: read_uint32_ok remaining_consumed)
  show ?thesis
    unfolding findBlock_def r1 prod.case sum.case Let_def
    using assms(4) apply (simp only: if_False r2 prod.case sum.case c)
    using assms(7) apply (simp add: Seek_cur_def f_consumed)
    apply (simp add: consumed_def)
    done
qed

lemma findBlock_cases:
  fixes z :: Indexer
  defines "r \<equiv> remaining z"
  defines "dstLen \<equiv> Uint32 (take 4 r)"
  defines "srcLen \<equiv> Uint32 (take 4 (drop 4 r))"
  obtains
    (short1) "length r < 4"
  | (sentinel) "4 \<le> length r" "dstLen = 0"
  | (short2) "4 \<le> length r" "dstLen \<noteq> 0" "length r < 8"
  | (corrupt) "8 \<le> length r" "dstLen \<noteq> 0" "srcLen = 0 \<or> srcLen > dstLen"
  | (noseek) "8 \<le> length r" "dstLen \<noteq> 0" "srcLen \<noteq> 0" "srcLen \<le> dstLen" "\<not> seekable (f z)"
  | (valid) "8 \<le> length r" "dstLen \<noteq> 0" "srcLen \<noteq> 0" "srcLen \<le> dstLen" "seekable (f z)"
  by (metis not_less)

lemma findBlock_err: "err (snd (findBlock z)) = fst (findBlock z)"
proof (cases z rule: findBlock_cases)
  case short1
  then show ?thesis by (simp add: findBlock_short1)
next
  case sentinel
  then show ?thesis by (simp add: findBlock_sentinel)
next
  case short2
  then show ?thesis by (simp add: findBlock_short2)
next
  case corrupt
  then show ?thesis by (simp add: findBlock_corrupt [OF _ refl refl])
next
  case noseek
  then show ?thesis by (simp add: findBlock_noseek [OF _ refl refl])
next
  case valid
  then show ?thesis by (simp add: findBlock_ok [OF _ refl refl])
qed

lemma findBlock_terminal_indexes:
  "fst (findBlock z) \<noteq> None \<Longrightarrow> indexes (snd (findBlock z)) = indexes z"
proof (cases z rule: findBlock_cases)
  case short1
  then show ?thesis by (simp add: findBlock_short1)
next
  case sentinel
  then show ?thesis by (simp add: findBlock_sentinel)
next
  case short2
  then show ?thesis by (simp add: findBlock_short2)
next
  case corrupt
  then show ?thesis by (simp add: findBlock_corrupt [OF _ refl refl])
next
  case noseek
  then show ?thesis by (simp add: findBlock_noseek [OF _ refl refl])
next
  case valid
  assume "fst (findBlock z) \<noteq> None"
  with valid show ?thesis by (simp add: findBlock_ok [OF _ refl refl])
qed

lemma findBlock_advances:
  assumes "fst (findBlock z) = None"
  shows "content (f (snd (findBlock z))) = content (f z)"
    and "fpos (f z) + 8 \<le> length (content (f z))"
    and "fpos (f z) + 8 < fpos (f (snd (findBlock z)))"
proof -
  have v: "8 \<le> length (remaining z) \<and> Uint32 (take 4 (remaining z)) \<noteq> 0 \<and>
           Uint32 (take 4 (drop 4 (remaining z))) \<noteq> 0 \<and>
           Uint32 (take 4 (drop 4 (remaining z))) \<le> Uint32 (take 4 (remaining z)) \<and> seekable (f z)"
  proof (cases z rule: findBlock_cases)
    case short1
    with assms show ?thesis by (simp add: findBlock_short1)
  next
    case sentinel
    with assms show ?thesis by (simp add: findBlock_sentinel)
  next
    case short2
    with assms show ?thesis by (simp add: findBlock_short2)
  next
    case corrupt
    with assms show ?thesis by (simp add: findBlock_corrupt [OF _ refl refl])
  next
    case noseek
    with assms show ?thesis by (simp add: findBlock_noseek [OF _ refl refl])
  next
    case valid
    then show ?thesis by simp
  qed
  note fb = findBlock_ok [OF _ refl refl, of z]
  show "content (f (snd (findBlock z))) = content (f z)"
    using v by (simp add: fb)
  have "8 \<le> length (content (f z)) - fpos (f z)"
    using v by (simp add: remaining_def)
  then show "fpos (f z) + 8 \<le> length (content (f z))"
    by linarith
  have "0 < unat (Uint32 (take 4 (drop 4 (remaining z))))"
    using v by (simp add: unat_gt_0)
  then show "fpos (f z) + 8 < fpos (f (snd (findBlock z)))"
    using v by (simp add: fb)
qed

text \<open>
  The scan loop of \<open>CreateIndex\<close>: \<open>for { indexer.findBlock(); if indexer.err != nil
  { break } }\<close>. Every block that is accepted moves the file offset forward by more than
  8 bytes inside the file, so the loop ends on every input.
\<close>

function scan :: "Indexer \<Rightarrow> Indexer" where
  "scan z = (let z' = snd (findBlock z) in if err z' \<noteq> None then z' else scan z')"
  by pat_completeness auto
termination
proof (relation "measure (\<lambda>z. length (content (f z)) - fpos (f z))")
  show "wf (measure (\<lambda>z. length (content (f z)) - fpos (f z)))" by simp
next
  fix z z' :: Indexer
  assume "z' = snd (findBlock z)" "\<not> err z' \<noteq> None"
  then have n: "fst (findBlock z) = None" by (simp add: findBlock_err)
  show "(z', z) \<in> measure (\<lambda>z. length (content (f z)) - fpos (f z))"
    using findBlock_advances [OF n] \<open>z' = snd (findBlock z)\<close> by simp
qed

declare scan.simps [simp del]

section \<open>The entry point\<close>

text \<open>
  The specification's name for the errors of the header checks: bad magic, unsupported or
  incompatible version, header checksum mismatch, invalid method.
\<close>

definition FormatError :: "error \<Rightarrow> bool" where
  "FormatError e \<longleftrightarrow>
     e = ErrorsNew ''lzo: invalid header'' \<or> e = ErrorsNew ''lzo: incompatible version'' \<or>
     e = ErrorsNew ''lzo: incompatible method''"

text \<open>
  The file system \<open>CreateIndex\<close> works on: the files by path, and the paths that cannot
  be created or truncated. \<open>os.Open\<close> fails on a missing file and opens a regular,
  seekable file at offset 0; \<open>os.Create\<close> creates the file or truncates it to no bytes;
  \<open>Write\<close> appends to the created file.
\<close>

record filesystem =
  files :: "string \<Rightarrow> byte list option"
  protected :: "string set"

definition os_Open :: "filesystem \<Rightarrow> string \<Rightarrow> error + os_file" where
  "os_Open fs name =
     (case files fs name of
        None \<Rightarrow> Inl ErrNotExist
      | Some bytes \<Rightarrow> Inr \<lparr>content = bytes, fpos = 0, seekable = True\<rparr>)"

definition os_Create :: "filesystem \<Rightarrow> string \<Rightarrow> error + filesystem" where
  "os_Create fs name =
     (if name \<in> protected fs then Inl ErrPermission
      else Inr (fs\<lparr>files := (files fs)(name \<mapsto> [])\<rparr>))"

definition file_Write :: "string \<Rightarrow> byte list \<Rightarrow> filesystem \<Rightarrow> filesystem" where
  "file_Write name bs fs =
     fs\<lparr>files := (files fs)(name \<mapsto> (case files fs name of None \<Rightarrow> bs | Some old \<Rightarrow> old @ bs))\<rparr>"

text \<open>
  The writing loop of \<open>CreateIndex\<close>: for each offset a new slice \<open>tmp := []byte{}\<close> of
  length 0, \<open>binary.BigEndian.PutUint64(tmp, uint64(num))\<close>, then \<open>indexfile.Write(tmp)\<close>.
\<close>

fun write_indexes :: "string \<Rightarrow> int list \<Rightarrow> filesystem \<Rightarrow> panic option \<times> filesystem" where
  "write_indexes name [] fs = (None, fs)"
| "write_indexes name (num # nums) fs =
     (let tmp = [] in
      case PutUint64 tmp (of_int num) of
        Inl p \<Rightarrow> (Some p, fs)
      | Inr tmp \<Rightarrow> write_indexes name nums (file_Write name tmp fs))"

text \<open>
  \<open>CreateIndex\<close>. The error of \<open>NewIndexer\<close> is assigned and never read; on an error the
  indexer is nil, and the call \<open>indexer.findBlock()\<close> that follows dereferences it. The
  deferred \<open>Close\<close> calls write nothing.
\<close>

definition CreateIndex :: "filesystem \<Rightarrow> string \<Rightarrow> outcome \<times> filesystem" where
  "CreateIndex fs0 filename =
     (let index_file_name = filename @ ''.index'' in
      case os_Open fs0 filename of
        Inl e \<Rightarrow> (Return (Some e), fs0)
      | Inr lzofile \<Rightarrow>
         (case os_Create fs0 index_file_name of
            Inl e \<Rightarrow> (Return (Some e), fs0)
          | Inr fs \<Rightarrow>
             (case NewIndexer lzofile of
                Inl e \<Rightarrow> (Panic NilPointerDereference, fs)
              | Inr indexer \<Rightarrow>
                 let indexer = scan indexer in
                 if err indexer = Some EOF
                 then (case write_indexes index_file_name (indexes indexer) fs of
                         (Some p, fs) \<Rightarrow> (Panic p, fs)
                       | (None, fs) \<Rightarrow> (Return None, fs))
                 else (Return (err indexer), fs))))"

definition Close :: "Indexer \<Rightarrow> error option" where
  "Close z = (if err z = Some EOF then None else err z)"

section \<open>The container format\<close>

text \<open>
  What the parser and the scanner are specified on: the layout of a stream of blocks and
  of a header, byte by byte, and the bytes at which the scanner stops.
\<close>

subsection \<open>Streams of blocks\<close>

text \<open>
  The block layout of the container: \<open>dstLen(4) \<cdot> srcLen(4) \<cdot> checksum fields \<cdot> payload\<close>.
  A block is given by the bytes of its four parts. It is valid for the checksum counts of
  a header when both size fields have 4 bytes, \<open>0 < srcLen \<le> dstLen\<close>, the payload has
  \<open>srcLen\<close> bytes, and there are as many 4-byte checksum fields as the scanner skips.
  \<open>block_offsets p bs\<close> are the offsets of the blocks \<open>bs\<close> laid out from offset \<open>p\<close>.
\<close>

record block =
  dst_field :: "byte list"
  src_field :: "byte list"
  checksum_fields :: "byte list"
  payload :: "byte list"

definition block_bytes :: "block \<Rightarrow> byte list" where
  "block_bytes b = dst_field b @ src_field b @ checksum_fields b @ payload b"

definition valid_block :: "nat \<Rightarrow> nat \<Rightarrow> block \<Rightarrow> bool" where
  "valid_block ndc ncc b \<longleftrightarrow>
     length (dst_field b) = 4 \<and> length (src_field b) = 4 \<and>
     Uint32 (dst_field b) \<noteq> 0 \<and> Uint32 (src_field b) \<noteq> 0 \<and>
     Uint32 (src_field b) \<le> Uint32 (dst_field b) \<and>
     length (checksum_fields b) =
       4 * (ndc + (if Uint32 (dst_field b) = Uint32 (src_field b) then ncc else 0)) \<and>
     length (payload b) = unat (Uint32 (src_field b))"

fun block_offsets :: "nat \<Rightarrow> block list \<Rightarrow> int list" where
  "block_offsets p [] = []"
| "block_offsets p (b # bs) = int p # block_offsets (p + length (block_bytes b)) bs"

subsection \<open>The layout of a header\<close>

text \<open>
  The container header as the parser consumes it, field by field: the bytes of each
  field, in the order of the layout \<open>magic(9) \<cdot> formatVersion(2) \<cdot> neededLibraryVersion(2)
  \<cdot> neededLibraryVersion again(2) \<cdot> method(1) \<cdot> level(1) \<cdot> flags(4) \<cdot> [filterId(4)] \<cdot>
  mode(4) \<cdot> modTime(4) \<cdot> modTimeHigh(4) \<cdot> nameLen(1) \<cdot> name \<cdot> headerChecksum(4)\<close>. The
  second library version, the level and the high modification time are always there for
  this parser, whose thresholds test the constant \<open>version\<close>; the filter id is there when
  the flag is set. \<open>expected_checksum\<close> is the checksum of the bytes between the magic and
  the checksum field, by the algorithm the flags select; \<open>header_verdict\<close> is the error the
  checks of the header give, if any; \<open>checksum_counts\<close> are the numbers of decompressed and
  compressed checksums that the flags declare.
\<close>

record header =
  h_version :: "byte list"
  h_library :: "byte list"
  h_library2 :: "byte list"
  h_method :: byte
  h_level :: byte
  h_flags :: "byte list"
  h_filter :: "byte list"
  h_mode :: "byte list"
  h_mtime :: "byte list"
  h_mtime_high :: "byte list"
  h_name :: "byte list"
  h_checksum :: "byte list"

definition header_body :: "header \<Rightarrow> byte list" where
  "header_body h = h_version h @ h_library h @ h_library2 h @ [h_method h, h_level h] @
     h_flags h @ h_filter h @ h_mode h @ h_mtime h @ h_mtime_high h @
     [of_nat (length (h_name h))] @ h_name h"

definition header_bytes :: "header \<Rightarrow> byte list" where
  "header_bytes h = lzoMagic @ header_body h @ h_checksum h"

definition valid_layout :: "header \<Rightarrow> bool" where
  "valid_layout h \<longleftrightarrow>
     length (h_version h) = 2 \<and> length (h_library h) = 2 \<and> length (h_library2 h) = 2 \<and>
     length (h_flags h) = 4 \<and>
     length (h_filter h) = (if Uint32 (h_flags h) AND flagFilter = 0 then 0 else 4) \<and>
     length (h_mode h) = 4 \<and> length (h_mtime h) = 4 \<and> length (h_mtime_high h) = 4 \<and>
     length (h_name h) < 256 \<and> length (h_checksum h) = 4"

definition expected_checksum :: "header \<Rightarrow> uint32" where
  "expected_checksum h =
     (if Uint32 (h_flags h) AND flagCRC32 = 0 then adler32_upd 1 (header_body h)
      else crc32_upd 0 (header_body h))"

definition header_verdict :: "header \<Rightarrow> error option" where
  "header_verdict h =
     (if Uint16 (h_version h) < Uint16 (h_library2 h) then Some (ErrorsNew ''lzo: incompatible version'')
      else if Uint16 (h_library2 h) < 0x0900 then Some (ErrorsNew ''lzo: invalid header'')
      else if Uint32 (h_checksum h) = expected_checksum h
      then (if h_method h = 0 then Some (ErrorsNew ''lzo: incompatible method'') else None)
      else Some (ErrorsNew ''lzo: invalid header''))"

definition checksum_counts :: "uint32 \<Rightarrow> nat \<times> nat" where
  "checksum_counts fl =
     ((if fl AND flagAdler32D = 0 then 0 else 1) + (if fl AND flagCRC32D = 0 then 0 else 1),
      (if fl AND flagAdler32C = 0 then 0 else 1) + (if fl AND flagCRC32C = 0 then 0 else 1))"

subsection \<open>The bytes that end a scan\<close>

text \<open>
  \<open>accepted bs\<close>: the bytes \<open>bs\<close> start with the two size fields of a block that passes
  the checks of \<open>findBlock\<close>. \<open>terminal_error bs\<close>: the error of \<open>findBlock\<close> on a seekable
  file whose unread bytes \<open>bs\<close> are not accepted: \<open>io.EOF\<close> for the sentinel and for a file
  that ends before a size field, \<open>io.ErrUnexpectedEOF\<close> for one that ends inside a size
  field, and the corruption error.
\<close>

definition accepted :: "byte list \<Rightarrow> bool" where
  "accepted bs \<longleftrightarrow>
     8 \<le> length bs \<and> Uint32 (take 4 bs) \<noteq> 0 \<and> Uint32 (take 4 (drop 4 bs)) \<noteq> 0 \<and>
     Uint32 (take 4 (drop 4 bs)) \<le> Uint32 (take 4 bs)"

definition terminal_error :: "byte list \<Rightarrow> error" where
  "terminal_error bs =
     (if length bs < 4 then (if bs = [] then EOF else ErrUnexpectedEOF)
      else if Uint32 (take 4 bs) = 0 then EOF
      else if length bs < 8 then (if length bs = 4 then EOF else ErrUnexpectedEOF)
      else ErrorsNew ''lzo: data corruption'')"

subsection \<open>Example files\<close>

text \<open>
  A header of format version \<open>0x1030\<close> with method 1, no flag set, no name, and its
  Adler-32 checksum; two stored blocks of 2 and 3 bytes; the same header with method 0 and
  the checksum that goes with it; a file whose first block has \<open>srcLen > dstLen\<close>; and the
  file of the header, the two blocks and the sentinel.

  \<open>old_format_file\<close> is a file of format version \<open>0x093f\<close>, below the threshold \<open>0x0940\<close>
  of the three optional fields, so its header is \<open>magic \<cdot> formatVersion \<cdot>
  neededLibraryVersion \<cdot> method \<cdot> flags \<cdot> mode \<cdot> modTime \<cdot> nameLen \<cdot> name \<cdot>
  headerChecksum\<close>: version \<open>0x093f\<close>, library version \<open>0x0900\<close>, method 9, flags
  \<open>0x00010000\<close>, a name of 24 bytes at offset 27 and the Adler-32 checksum of these
  fields at offset 51; the two stored blocks follow at offsets 55 and 65, and the sentinel
  at 76. \<open>old_format_as_parsed\<close> are the fields that \<open>readHeader\<close>, which reads the three
  optional fields whatever the format version, takes from the first 38 bytes of that
  file, and \<open>name_block\<close> is the block that \<open>findBlock\<close> then takes from the bytes of the
  name at offset 38.
\<close>

definition example_header :: header where
  "example_header =
     \<lparr>h_version = [0x10, 0x30], h_library = [0x09, 0x40], h_library2 = [0x09, 0x40],
      h_method = 1, h_level = 5, h_flags = [0, 0, 0, 0], h_filter = [],
      h_mode = [0, 0, 0x81, 0xa4], h_mtime = [0x5f, 0, 0, 0], h_mtime_high = [0, 0, 0, 0],
      h_name = [], h_checksum = [0x21, 0xec, 0x02, 0x5d]\<rparr>"

definition example_blocks :: "block list" where
  "example_blocks =
     [\<lparr>dst_field = [0, 0, 0, 2], src_field = [0, 0, 0, 2], checksum_fields = [],
       payload = [0xAA, 0xBB]\<rparr>,
      \<lparr>dst_field = [0, 0, 0, 3], src_field = [0, 0, 0, 3], checksum_fields = [],
       payload = [1, 2, 3]\<rparr>]"



definition example_file :: "byte list" where
  "example_file = header_bytes example_header @ concat (map block_bytes example_blocks) @ [0, 0, 0, 0]"

definition old_format_name :: "byte list" where
  "old_format_name =
     [0x61, 0x62, 0x63, 0x64, 0x65, 0x66, 0, 0x20, 0x76, 0x03, 0xcc,
      0, 0, 0, 1, 0, 0, 0, 1, 0x7a, 0, 0, 0, 0]"

definition old_format_body :: "byte list" where
  "old_format_body =
     [0x09, 0x3f] @ [0x09, 0x00] @ [9] @ [0, 1, 0, 0] @ [0, 0, 0, 0xa4] @ [0x5f, 0, 0, 0] @
     [24] @ old_format_name"

definition old_format_file :: "byte list" where
  "old_format_file =
     lzoMagic @ old_format_body @ [0x78, 0x49, 0x05, 0xad] @
     concat (map block_bytes example_blocks) @ [0, 0, 0, 0]"

definition old_format_as_parsed :: header where
  "old_format_as_parsed =
     \<lparr>h_version = [0x09, 0x3f], h_library = [0x09, 0x00], h_library2 = [0x09, 0x00],
      h_method = 1, h_level = 0, h_flags = [0, 0, 0, 0], h_filter = [],
      h_mode = [0xa4, 0x5f, 0, 0], h_mtime = [0, 0x18, 0x61, 0x62],
      h_mtime_high = [0x63, 0x64, 0x65, 0x66], h_name = [],
      h_checksum = [0x20, 0x76, 0x03, 0xcc]\<rparr>"

definition name_block :: block where
  "name_block = \<lparr>dst_field = [0, 0, 0, 1], src_field = [0, 0, 0, 1], checksum_fields = [],
     payload = [0x7a]\<rparr>"

section \<open>Lemmas\<close>

subsection \<open>Scanning valid blocks\<close>

lemma scan_step:
  "fst (findBlock z) = None \<Longrightarrow> scan z = scan (snd (findBlock z))"
  by (subst scan.simps) (simp add: findBlock_err Let_def)

lemma scan_stop:
  "fst (findBlock z) \<noteq> None \<Longrightarrow> scan z = snd (findBlock z)"
  by (subst scan.simps) (simp add: findBlock_err Let_def)

lemma findBlock_block:
  assumes v: "valid_block (num_decompressed_checksums z) (num_compressed_checksums z) b"
    and r: "remaining z = block_bytes b @ tail"
    and s: "seekable (f z)"
  shows "fst (findBlock z) = None"
    and "indexes (snd (findBlock z)) = indexes z @ [int (fpos (f z))]"
    and "fpos (f (snd (findBlock z))) = fpos (f z) + length (block_bytes b)"
    and "remaining (snd (findBlock z)) = tail"
    and "content (f (snd (findBlock z))) = content (f z)"
    and "seekable (f (snd (findBlock z)))"
    and "num_decompressed_checksums (snd (findBlock z)) = num_decompressed_checksums z"
    and "num_compressed_checksums (snd (findBlock z)) = num_compressed_checksums z"
proof -
  have l: "8 \<le> length (remaining z)"
    using v by (simp add: r block_bytes_def valid_block_def)
  have d: "take 4 (remaining z) = dst_field b"
    using v by (simp add: r block_bytes_def valid_block_def)
  have c: "take 4 (drop 4 (remaining z)) = src_field b"
    using v by (simp add: r block_bytes_def valid_block_def)
  have fb: "findBlock z = (None,
     (consumed (take 4 (drop 4 (remaining z))) ((consumed (take 4 (remaining z)) z)\<lparr>err := None\<rparr>))
       \<lparr>err := None, printed := printed z @ [int (fpos (f z)) + 8],
         indexes := indexes z @ [int (fpos (f z))],
         f := (f z)\<lparr>fpos := fpos (f z) + length (block_bytes b)\<rparr>\<rparr>)"
    using v s by (subst findBlock_ok [OF l refl refl]) (simp_all add: d c valid_block_def block_bytes_def)
  show "fst (findBlock z) = None" by (simp add: fb)
  show "indexes (snd (findBlock z)) = indexes z @ [int (fpos (f z))]" by (simp add: fb)
  show "fpos (f (snd (findBlock z))) = fpos (f z) + length (block_bytes b)" by (simp add: fb)
  show "content (f (snd (findBlock z))) = content (f z)" by (simp add: fb)
  show "seekable (f (snd (findBlock z)))" using s by (simp add: fb)
  show "num_decompressed_checksums (snd (findBlock z)) = num_decompressed_checksums z" by (simp add: fb)
  show "num_compressed_checksums (snd (findBlock z)) = num_compressed_checksums z" by (simp add: fb)
  have "remaining (snd (findBlock z)) = drop (length (block_bytes b)) (remaining z)"
    by (simp add: fb remaining_def add.commute)
  then show "remaining (snd (findBlock z)) = tail" by (simp add: r)
qed

lemma scan_blocks:
  assumes "list_all (valid_block (num_decompressed_checksums z) (num_compressed_checksums z)) bs"
    and "remaining z = concat (map block_bytes bs) @ tail"
    and "seekable (f z)"
  shows "\<exists>z'. scan z = scan z' \<and> indexes z' = indexes z @ block_offsets (fpos (f z)) bs \<and>
           remaining z' = tail \<and> fpos (f z') = fpos (f z) + length (concat (map block_bytes bs)) \<and>
           content (f z') = content (f z) \<and> seekable (f z') \<and>
           num_decompressed_checksums z' = num_decompressed_checksums z \<and>
           num_compressed_checksums z' = num_compressed_checksums z"
  using assms
proof (induction bs arbitrary: z)
  case Nil
  then show ?case by auto
next
  case (Cons b bs)
  let ?z1 = "snd (findBlock z)"
  have v: "valid_block (num_decompressed_checksums z) (num_compressed_checksums z) b"
    using Cons.prems(1) by simp
  have r: "remaining z = block_bytes b @ (concat (map block_bytes bs) @ tail)"
    using Cons.prems(2) by simp
  note fb = findBlock_block [OF v r Cons.prems(3)]
  have "\<exists>z'. scan ?z1 = scan z' \<and> indexes z' = indexes ?z1 @ block_offsets (fpos (f ?z1)) bs \<and>
           remaining z' = tail \<and> fpos (f z') = fpos (f ?z1) + length (concat (map block_bytes bs)) \<and>
           content (f z') = content (f ?z1) \<and> seekable (f z') \<and>
           num_decompressed_checksums z' = num_decompressed_checksums ?z1 \<and>
           num_compressed_checksums z' = num_compressed_checksums ?z1"
    using Cons.prems(1) by (intro Cons.IH) (simp_all add: fb)
  then obtain z' where z': "scan ?z1 = scan z'" "indexes z' = indexes ?z1 @ block_offsets (fpos (f ?z1)) bs"
      "remaining z' = tail" "fpos (f z') = fpos (f ?z1) + length (concat (map block_bytes bs))"
      "content (f z') = content (f ?z1)" "seekable (f z')"
      "num_decompressed_checksums z' = num_decompressed_checksums ?z1"
      "num_compressed_checksums z' = num_compressed_checksums ?z1"
    by blast
  have "scan z = scan z'"
    using scan_step [OF fb(1)] z'(1) by simp
  then show ?case
    using z' by (intro exI [of _ z']) (simp add: fb)
qed

subsection \<open>Reads that continue the header parser\<close>

lemma then_read_ReadFull:
  "n \<le> length (remaining z) \<Longrightarrow>
   then_read (ReadFull n z) k = k (take n (remaining z)) (consumed (take n (remaining z)) z)"
  by (simp add: then_read_def ReadFull_ok)

lemma then_read_uint8:
  "1 \<le> length (remaining z) \<Longrightarrow>
   then_read (read_uint8 z) k = k (remaining z ! 0) (consumed (take 1 (remaining z)) z)"
  by (simp add: then_read_def read_uint8_def ReadFull_ok)

lemma then_read_uint16:
  "2 \<le> length (remaining z) \<Longrightarrow>
   then_read (read_uint16 z) k = k (Uint16 (take 2 (remaining z))) (consumed (take 2 (remaining z)) z)"
  by (simp add: then_read_def read_uint16_def ReadFull_ok)

lemma then_read_uint32:
  "4 \<le> length (remaining z) \<Longrightarrow>
   then_read (read_uint32 z) k = k (Uint32 (take 4 (remaining z))) (consumed (take 4 (remaining z)) z)"
  by (simp add: then_read_def read_uint32_def ReadFull_ok)

lemma then_read_ReadFull_short:
  "length (remaining z) < n \<Longrightarrow>
   then_read (ReadFull n z) k = Inl (if remaining z = [] then EOF else ErrUnexpectedEOF)"
  by (simp add: then_read_def ReadFull_short)

lemma then_read_uint8_short:
  "length (remaining z) < 1 \<Longrightarrow> then_read (read_uint8 z) k = Inl EOF"
  by (simp add: then_read_def read_uint8_def ReadFull_short)

lemma then_read_uint16_short:
  "length (remaining z) < 2 \<Longrightarrow>
   then_read (read_uint16 z) k = Inl (if remaining z = [] then EOF else ErrUnexpectedEOF)"
  by (simp add: then_read_def read_uint16_def ReadFull_short)

lemma then_read_uint32_short:
  "length (remaining z) < 4 \<Longrightarrow>
   then_read (read_uint32 z) k = Inl (if remaining z = [] then EOF else ErrUnexpectedEOF)"
  by (simp add: then_read_def read_uint32_def ReadFull_short)

lemma remaining_fields [simp]:
  "remaining (z\<lparr>crc32 := c\<rparr>) = remaining z"
  "remaining (z\<lparr>adler32 := a\<rparr>) = remaining z"
  "remaining (z\<lparr>version_f := v\<rparr>) = remaining z"
  "remaining (z\<lparr>libraryVersion := v\<rparr>) = remaining z"
  "remaining (z\<lparr>method_f := m\<rparr>) = remaining z"
  "remaining (z\<lparr>flags := fl\<rparr>) = remaining z"
  "remaining (z\<lparr>num_compressed_checksums := n\<rparr>) = remaining z"
  "remaining (z\<lparr>num_decompressed_checksums := n\<rparr>) = remaining z"
  "remaining (z\<lparr>ModTime := t\<rparr>) = remaining z"
  "remaining (z\<lparr>Name := nm\<rparr>) = remaining z"
  "remaining (z\<lparr>indexes := ix\<rparr>) = remaining z"
  "remaining (z\<lparr>printed := pr\<rparr>) = remaining z"
  by (simp_all add: remaining_def)

lemma length_lzoMagic: "length lzoMagic = 9"
  by (simp add: lzoMagic_def)

subsection \<open>Checksums of bytes written in pieces\<close>

lemma crc32_upd_append: "crc32_upd (crc32_upd c p) q = crc32_upd c (p @ q)"
  by (simp add: crc32_upd_def simpleUpdate_def)

lemma adler32_step_bound:
  "fst (adler32_step x s) < 65536 \<and> snd (adler32_step x s) < 65536"
proof -
  have "(a::nat) mod 65521 < 65536" for a
    by (rule less_trans [OF mod_less_divisor]) simp_all
  then show ?thesis by (simp add: adler32_step_def Let_def)
qed

lemma adler32_fold_bound:
  "fst s < 65536 \<Longrightarrow> snd s < 65536 \<Longrightarrow>
   fst (fold adler32_step p s) < 65536 \<and> snd (fold adler32_step p s) < 65536"
  by (induction p arbitrary: s) (simp_all add: adler32_step_bound)

lemma word16_take: "a < 65536 \<Longrightarrow> take_bit 16 (of_nat a :: uint32) = of_nat a"
  by (simp add: take_bit_of_nat take_bit_nat_eq_self)

lemma word16_unat: "a < 65536 \<Longrightarrow> unat (of_nat a :: uint32) = a"
  by (simp add: unat_of_nat)

lemma word16_drop: "a < 65536 \<Longrightarrow> drop_bit 16 (of_nat a :: uint32) = 0"
proof -
  assume a: "a < 65536"
  have "unat (drop_bit 16 (of_nat a :: uint32)) = drop_bit 16 (unat (of_nat a :: uint32))"
    by (rule unat_drop_bit_eq)
  also have "\<dots> = a div 2 ^ 16"
    unfolding word16_unat [OF a] by (rule drop_bit_eq_div)
  also have "\<dots> = 0"
    using a by simp
  finally have "unat (drop_bit 16 (of_nat a :: uint32)) = 0" .
  then show ?thesis by (simp add: unat_eq_0)
qed

lemma adler32_pack_lo:
  "a < 65536 \<Longrightarrow> (push_bit 16 (of_nat b) OR of_nat a :: uint32) AND 0xffff = of_nat a"
proof -
  assume a: "a < 65536"
  have m: "(0xffff :: uint32) = mask 16" by (simp add: mask_eq_exp_minus_1)
  show ?thesis
    unfolding m take_bit_eq_mask [symmetric]
    by (simp add: take_bit_or take_bit_push_bit word16_take [OF a])
qed

lemma adler32_pack_hi:
  "a < 65536 \<Longrightarrow> b < 65536 \<Longrightarrow>
   drop_bit 16 (push_bit 16 (of_nat b) OR of_nat a :: uint32) = of_nat b"
proof -
  assume a: "a < 65536" and b: "b < 65536"
  have "drop_bit 16 (push_bit 16 (of_nat b :: uint32)) = take_bit 16 (of_nat b)"
    by (rule bit_word_eqI) (auto simp: bit_simps)
  then show ?thesis
    by (simp add: drop_bit_or word16_drop [OF a] word16_take [OF b])
qed

lemma adler32_init_bound:
  "unat (d AND 0xffff :: uint32) < 65536 \<and> unat (drop_bit 16 d :: uint32) < 65536"
proof
  have "unat (d AND 0xffff) \<le> unat (0xffff :: uint32)"
    by (rule word_and_le1 [THEN word_le_nat_alt [THEN iffD1]])
  then show "unat (d AND 0xffff :: uint32) < 65536" by simp
  have "unat (drop_bit 16 d) = unat d div 2 ^ 16"
    by (subst unat_drop_bit_eq) (rule drop_bit_eq_div)
  moreover have "unat d < 2 ^ 32"
    using unsigned_less [of d] by simp
  ultimately show "unat (drop_bit 16 d :: uint32) < 65536"
    by simp
qed

lemma adler32_upd_append: "adler32_upd (adler32_upd d p) q = adler32_upd d (p @ q)"
proof -
  define s where "s = fold adler32_step p (unat (d AND 0xffff), unat (drop_bit 16 d))"
  have b: "fst s < 65536" "snd s < 65536"
    using adler32_fold_bound [of "(unat (d AND 0xffff), unat (drop_bit 16 d))" p]
      adler32_init_bound [of d]
    unfolding s_def fst_conv snd_conv by blast+
  have u: "adler32_upd d p = push_bit 16 (of_nat (snd s)) OR of_nat (fst s)"
    by (simp add: adler32_upd_def s_def Let_def)
  have i: "(unat (adler32_upd d p AND 0xffff), unat (drop_bit 16 (adler32_upd d p))) = s"
    unfolding u
    by (simp only: adler32_pack_lo [OF b(1)] adler32_pack_hi [OF b] word16_unat [OF b(1)] word16_unat [OF b(2)] prod.collapse)
  show ?thesis
    unfolding adler32_upd_def [of "adler32_upd d p"] i
    by (simp add: adler32_upd_def s_def Let_def)
qed

lemma adler32_upd_Nil: "adler32_upd d [] = d"
proof -
  have "push_bit 16 (drop_bit 16 d) OR (d AND mask 16) = d"
    by (rule bit_word_eqI) (auto simp: bit_simps)
  moreover have "(0xffff :: uint32) = mask 16" by (simp add: mask_eq_exp_minus_1)
  ultimately show ?thesis
    by (simp add: adler32_upd_def)
qed

lemma crc32_upd_Nil: "crc32_upd c [] = c"
  by (simp add: crc32_upd_def simpleUpdate_def)

lemma consumed_Nil: "consumed [] z = z"
  by (simp add: consumed_def adler32_upd_Nil crc32_upd_Nil)

subsection \<open>The header's sections\<close>

lemma read_magic_ok:
  "remaining z = lzoMagic @ rest \<Longrightarrow>
   read_magic z = Inr ((consumed lzoMagic z)\<lparr>crc32 := 0, adler32 := 1\<rparr>)"
  by (simp add: read_magic_def then_read_ReadFull)

lemma read_magic_bad:
  "length lzoMagic \<le> length (remaining z) \<Longrightarrow> take (length lzoMagic) (remaining z) \<noteq> lzoMagic \<Longrightarrow>
   read_magic z = Inl (ErrorsNew ''lzo: invalid header'')"
  by (simp add: read_magic_def then_read_ReadFull)

lemma read_magic_short:
  "length (remaining z) < length lzoMagic \<Longrightarrow>
   read_magic z = Inl (if remaining z = [] then EOF else ErrUnexpectedEOF)"
  by (simp add: read_magic_def then_read_ReadFull_short)

lemma read_version_ok:
  "remaining z = bs @ rest \<Longrightarrow> length bs = 2 \<Longrightarrow>
   read_version z = Inr ((consumed bs z)\<lparr>version_f := Uint16 bs\<rparr>)"
  by (simp add: read_version_def then_read_uint16 version_def)

lemma read_library_version_ok:
  "remaining z = b1 @ b2 @ rest \<Longrightarrow> length b1 = 2 \<Longrightarrow> length b2 = 2 \<Longrightarrow>
   read_library_version z =
     (if version_f z < Uint16 b2 then Inl (ErrorsNew ''lzo: incompatible version'')
      else if Uint16 b2 < 0x0900 then Inl (ErrorsNew ''lzo: invalid header'')
      else Inr ((consumed b2 ((consumed b1 z)\<lparr>libraryVersion := Uint16 b1\<rparr>))
                  \<lparr>libraryVersion := Uint16 b2\<rparr>))"
  by (simp add: read_library_version_def then_read_uint16 version_def and_then_def remaining_consumed)

lemma read_method_ok:
  "remaining z = m # rest \<Longrightarrow> read_method z = Inr ((consumed [m] z)\<lparr>method_f := m\<rparr>)"
  by (simp add: read_method_def then_read_uint8)

lemma read_level_ok:
  "remaining z = l # rest \<Longrightarrow> read_level z = Inr (consumed [l] z)"
  by (simp add: read_level_def then_read_uint8 version_def)

lemma read_flags_ok:
  "remaining z = bs @ rest \<Longrightarrow> length bs = 4 \<Longrightarrow>
   read_flags z = Inr ((consumed bs z)\<lparr>flags := Uint32 bs\<rparr>)"
  by (simp add: read_flags_def then_read_uint32)

lemma read_filters_ok:
  "remaining z = bs @ rest \<Longrightarrow> length bs = (if flags z AND flagFilter = 0 then 0 else 4) \<Longrightarrow>
   read_filters z = Inr (consumed bs z)"
  by (cases "flags z AND flagFilter = 0") (simp_all add: read_filters_def then_read_uint32 consumed_Nil)

lemma read_mode_ok:
  "remaining z = bs @ rest \<Longrightarrow> length bs = 4 \<Longrightarrow> read_mode z = Inr (consumed bs z)"
  by (simp add: read_mode_def then_read_uint32)

lemma read_modification_times_ok:
  "remaining z = bs @ rest \<Longrightarrow> length bs = 4 \<Longrightarrow>
   read_modification_times z = Inr ((consumed bs z)\<lparr>ModTime := uint (Uint32 bs)\<rparr>)"
  by (simp add: read_modification_times_def then_read_uint32)

lemma read_mod_time_high_ok:
  "remaining z = bs @ rest \<Longrightarrow> length bs = 4 \<Longrightarrow> read_mod_time_high z = Inr (consumed bs z)"
  by (simp add: read_mod_time_high_def then_read_uint32 version_def and_then_def)

lemma name_length_byte:
  assumes "n < 256"
  shows "unat (of_nat n :: byte) = n" and "(0 < (of_nat n :: byte)) = (0 < n)"
proof -
  show u: "unat (of_nat n :: byte) = n"
    using assms by (simp add: unat_of_nat)
  show "(0 < (of_nat n :: byte)) = (0 < n)"
    using u by (simp add: word_less_nat_alt)
qed

lemma read_name_ok:
  assumes "remaining z = of_nat (length nm) # nm @ rest" and "length nm < 256"
  shows "read_name z =
     Inr (if nm = [] then consumed [0] z
          else (consumed nm (consumed [of_nat (length nm)] z))\<lparr>Name := nm\<rparr>)"
proof (cases "nm = []")
  case True
  then show ?thesis
    using assms by (simp add: read_name_def then_read_uint8)
next
  case False
  then show ?thesis
    using assms
    by (simp add: read_name_def then_read_uint8 name_length_byte then_read_ReadFull remaining_consumed)
qed

lemma check_header_checksum_ok:
  assumes "remaining z = bs @ rest" and "length bs = 4"
  shows "check_header_checksum z =
     (if Uint32 bs = (if flags z AND flagCRC32 = 0 then adler32 z else crc32 z)
      then (if method_f z = 0 then Inl (ErrorsNew ''lzo: incompatible method'')
            else Inr (consumed bs (if flags z AND flagCRC32 = 0 then z\<lparr>adler32 := 1\<rparr>
                                   else z\<lparr>crc32 := 0\<rparr>)))
      else Inl (ErrorsNew ''lzo: invalid header''))"
  using assms
  by (cases "flags z AND flagCRC32 = 0") (simp_all add: check_header_checksum_def then_read_uint32)

lemma read_num_checksums_frame [simp]:
  "remaining (read_num_compressed_checksums z) = remaining z"
  "remaining (read_num_decompressed_checksums z) = remaining z"
  "f (read_num_compressed_checksums z) = f z"
  "f (read_num_decompressed_checksums z) = f z"
  "indexes (read_num_compressed_checksums z) = indexes z"
  "indexes (read_num_decompressed_checksums z) = indexes z"
  "err (read_num_compressed_checksums z) = err z"
  "err (read_num_decompressed_checksums z) = err z"
  "printed (read_num_compressed_checksums z) = printed z"
  "printed (read_num_decompressed_checksums z) = printed z"
  "flags (read_num_compressed_checksums z) = flags z"
  "flags (read_num_decompressed_checksums z) = flags z"
  "method_f (read_num_compressed_checksums z) = method_f z"
  "method_f (read_num_decompressed_checksums z) = method_f z"
  "version_f (read_num_compressed_checksums z) = version_f z"
  "version_f (read_num_decompressed_checksums z) = version_f z"
  "libraryVersion (read_num_compressed_checksums z) = libraryVersion z"
  "libraryVersion (read_num_decompressed_checksums z) = libraryVersion z"
  "adler32 (read_num_compressed_checksums z) = adler32 z"
  "adler32 (read_num_decompressed_checksums z) = adler32 z"
  "crc32 (read_num_compressed_checksums z) = crc32 z"
  "crc32 (read_num_decompressed_checksums z) = crc32 z"
  "num_decompressed_checksums (read_num_compressed_checksums z) = num_decompressed_checksums z"
  "num_compressed_checksums (read_num_decompressed_checksums z) = num_compressed_checksums z"
  by (simp_all add: read_num_compressed_checksums_def read_num_decompressed_checksums_def
      remaining_def Let_def)

lemma read_num_checksums_counts:
  "num_compressed_checksums (read_num_compressed_checksums z) = snd (checksum_counts (flags z))"
  "num_decompressed_checksums (read_num_decompressed_checksums z) = fst (checksum_counts (flags z))"
  by (simp_all add: read_num_compressed_checksums_def read_num_decompressed_checksums_def
      checksum_counts_def Let_def)

subsection \<open>Terminal conditions of the scan and the offsets of a stream of blocks\<close>

lemma findBlock_accepted:
  "accepted (remaining z) \<Longrightarrow> seekable (f z) \<Longrightarrow> fst (findBlock z) = None"
  by (simp add: accepted_def findBlock_ok [OF _ refl refl])

lemma findBlock_terminal:
  assumes "\<not> accepted (remaining z)" and "seekable (f z)"
  shows "fst (findBlock z) = Some (terminal_error (remaining z))"
proof (cases z rule: findBlock_cases)
  case short1
  then show ?thesis by (simp add: findBlock_short1 terminal_error_def)
next
  case sentinel
  then show ?thesis by (simp add: findBlock_sentinel terminal_error_def)
next
  case short2
  then show ?thesis by (simp add: findBlock_short2 terminal_error_def)
next
  case corrupt
  then show ?thesis by (simp add: findBlock_corrupt [OF _ refl refl] terminal_error_def)
next
  case noseek
  with assms show ?thesis by simp
next
  case valid
  with assms show ?thesis by (simp add: accepted_def)
qed

lemma scan_terminal:
  assumes "fst (findBlock z) \<noteq> None"
  shows "indexes (scan z) = indexes z" and "err (scan z) = fst (findBlock z)"
  using assms by (simp_all add: scan_stop findBlock_terminal_indexes findBlock_err)

lemma scan_blocks_terminal:
  assumes v: "list_all (valid_block (num_decompressed_checksums z) (num_compressed_checksums z)) bs"
    and r: "remaining z = concat (map block_bytes bs) @ tail"
    and s: "seekable (f z)"
    and t: "\<not> accepted tail"
  shows "indexes (scan z) = indexes z @ block_offsets (fpos (f z)) bs"
    and "err (scan z) = Some (terminal_error tail)"
proof -
  obtain z' where z': "scan z = scan z'" "indexes z' = indexes z @ block_offsets (fpos (f z)) bs"
      "remaining z' = tail" "seekable (f z')"
    using scan_blocks [OF v r s] by blast
  have e: "fst (findBlock z') = Some (terminal_error tail)"
    using findBlock_terminal [of z'] t z'(3,4) by simp
  then have n: "fst (findBlock z') \<noteq> None" by simp
  show "indexes (scan z) = indexes z @ block_offsets (fpos (f z)) bs"
    using scan_terminal(1) [OF n] z'(1,2) by simp
  show "err (scan z) = Some (terminal_error tail)"
    using scan_terminal(2) [OF n] z'(1) e by simp
qed

lemma block_offsets_lower:
  "x \<in> set (block_offsets p bs) \<Longrightarrow> int p \<le> x"
proof (induction bs arbitrary: p)
  case Nil
  then show ?case by simp
next
  case (Cons b bs)
  then show ?case by fastforce
qed

lemma valid_block_length:
  "valid_block ndc ncc b \<Longrightarrow> 8 < length (block_bytes b)"
  by (simp add: valid_block_def block_bytes_def unat_gt_0)

lemma block_offsets_sorted:
  "list_all (valid_block ndc ncc) bs \<Longrightarrow> sorted_wrt (<) (block_offsets p bs)"
proof (induction bs arbitrary: p)
  case Nil
  then show ?case by simp
next
  case (Cons b bs)
  have "8 < length (block_bytes b)"
    using Cons.prems valid_block_length [of ndc ncc b] by simp
  moreover have "int (p + length (block_bytes b)) \<le> x" if "x \<in> set (block_offsets (p + length (block_bytes b)) bs)" for x
    using that by (rule block_offsets_lower)
  ultimately have "\<forall>x \<in> set (block_offsets (p + length (block_bytes b)) bs). int p < x"
    by fastforce
  then show ?case
    using Cons by simp
qed

lemma length_block_offsets [simp]: "length (block_offsets p bs) = length bs"
  by (induction bs arbitrary: p) simp_all

lemma block_offsets_nth:
  "i < length bs \<Longrightarrow>
   block_offsets p bs ! i = int (p + length (concat (map block_bytes (take i bs))))"
proof (induction bs arbitrary: p i)
  case Nil
  then show ?case by simp
next
  case (Cons b bs)
  then show ?case by (cases i) (simp_all add: add.assoc)
qed

subsection \<open>Parsing a header of that layout\<close>

lemma readHeader_layout:
  assumes v: "valid_layout h" and r: "remaining z = header_bytes h @ tail"
  shows "\<exists>z'. readHeader z = (case header_verdict h of Some e \<Rightarrow> Inl e | None \<Rightarrow> Inr z') \<and>
           remaining z' = tail \<and>
           fpos (f z') = fpos (f z) + length (header_bytes h) \<and>
           content (f z') = content (f z) \<and> seekable (f z') = seekable (f z) \<and>
           indexes z' = indexes z \<and> err z' = err z \<and> printed z' = printed z \<and>
           flags z' = Uint32 (h_flags h) \<and> method_f z' = h_method h \<and>
           version_f z' = Uint16 (h_version h) \<and> libraryVersion z' = Uint16 (h_library2 h) \<and>
           num_decompressed_checksums z' = fst (checksum_counts (Uint32 (h_flags h))) \<and>
           num_compressed_checksums z' = snd (checksum_counts (Uint32 (h_flags h)))"
proof -
  define z1 where "z1 = (consumed lzoMagic z)\<lparr>crc32 := 0, adler32 := 1\<rparr>"
  define z2 where "z2 = (consumed (h_version h) z1)\<lparr>version_f := Uint16 (h_version h)\<rparr>"
  define z3 where "z3 = (consumed (h_library2 h)
      ((consumed (h_library h) z2)\<lparr>libraryVersion := Uint16 (h_library h)\<rparr>))
      \<lparr>libraryVersion := Uint16 (h_library2 h)\<rparr>"
  define z4 where "z4 = (consumed [h_method h] z3)\<lparr>method_f := h_method h\<rparr>"
  define z5 where "z5 = consumed [h_level h] z4"
  define z6 where "z6 = (consumed (h_flags h) z5)\<lparr>flags := Uint32 (h_flags h)\<rparr>"
  define z7 where "z7 = consumed (h_filter h) z6"
  define z8 where "z8 = read_num_decompressed_checksums (read_num_compressed_checksums z7)"
  define z9 where "z9 = consumed (h_mode h) z8"
  define z10 where "z10 = (consumed (h_mtime h) z9)\<lparr>ModTime := uint (Uint32 (h_mtime h))\<rparr>"
  define z11 where "z11 = consumed (h_mtime_high h) z10"
  define z12 where "z12 = (if h_name h = [] then consumed [0] z11
      else (consumed (h_name h) (consumed [of_nat (length (h_name h))] z11))\<lparr>Name := h_name h\<rparr>)"
  define z13 where "z13 = consumed (h_checksum h)
      (if flags z12 AND flagCRC32 = 0 then z12\<lparr>adler32 := 1\<rparr> else z12\<lparr>crc32 := 0\<rparr>)"
  note defs = z1_def z2_def z3_def z4_def z5_def z6_def z7_def z8_def z9_def z10_def z11_def z12_def
  have l: "length (h_version h) = 2" "length (h_library h) = 2" "length (h_library2 h) = 2"
    "length (h_flags h) = 4"
    "length (h_filter h) = (if Uint32 (h_flags h) AND flagFilter = 0 then 0 else 4)"
    "length (h_mode h) = 4" "length (h_mtime h) = 4" "length (h_mtime_high h) = 4"
    "length (h_name h) < 256" "length (h_checksum h) = 4"
    using v by (simp_all add: valid_layout_def)
  have r0: "remaining z = lzoMagic @ h_version h @ h_library h @ h_library2 h @ h_method h # h_level h #
      h_flags h @ h_filter h @ h_mode h @ h_mtime h @ h_mtime_high h @
      of_nat (length (h_name h)) # h_name h @ h_checksum h @ tail"
    by (simp add: r header_bytes_def header_body_def)
  have r1: "remaining z1 = h_version h @ h_library h @ h_library2 h @ h_method h # h_level h #
      h_flags h @ h_filter h @ h_mode h @ h_mtime h @ h_mtime_high h @
      of_nat (length (h_name h)) # h_name h @ h_checksum h @ tail"
    by (simp add: z1_def remaining_consumed r0)
  have r2: "remaining z2 = h_library h @ h_library2 h @ h_method h # h_level h #
      h_flags h @ h_filter h @ h_mode h @ h_mtime h @ h_mtime_high h @
      of_nat (length (h_name h)) # h_name h @ h_checksum h @ tail"
    by (simp add: z2_def remaining_consumed r1)
  have r3: "remaining z3 = h_method h # h_level h #
      h_flags h @ h_filter h @ h_mode h @ h_mtime h @ h_mtime_high h @
      of_nat (length (h_name h)) # h_name h @ h_checksum h @ tail"
    by (simp add: z3_def remaining_consumed r2)
  have r4: "remaining z4 = h_level h #
      h_flags h @ h_filter h @ h_mode h @ h_mtime h @ h_mtime_high h @
      of_nat (length (h_name h)) # h_name h @ h_checksum h @ tail"
    by (simp add: z4_def remaining_consumed r3)
  have r5: "remaining z5 = h_flags h @ h_filter h @ h_mode h @ h_mtime h @ h_mtime_high h @
      of_nat (length (h_name h)) # h_name h @ h_checksum h @ tail"
    by (simp add: z5_def remaining_consumed r4)
  have r6: "remaining z6 = h_filter h @ h_mode h @ h_mtime h @ h_mtime_high h @
      of_nat (length (h_name h)) # h_name h @ h_checksum h @ tail"
    by (simp add: z6_def remaining_consumed r5)
  have r7: "remaining z7 = h_mode h @ h_mtime h @ h_mtime_high h @
      of_nat (length (h_name h)) # h_name h @ h_checksum h @ tail"
    by (simp add: z7_def remaining_consumed r6)
  have r8: "remaining z8 = h_mode h @ h_mtime h @ h_mtime_high h @
      of_nat (length (h_name h)) # h_name h @ h_checksum h @ tail"
    by (simp add: z8_def r7)
  have r9: "remaining z9 = h_mtime h @ h_mtime_high h @
      of_nat (length (h_name h)) # h_name h @ h_checksum h @ tail"
    by (simp add: z9_def remaining_consumed r8 l)
  have r10: "remaining z10 = h_mtime_high h @
      of_nat (length (h_name h)) # h_name h @ h_checksum h @ tail"
    by (simp add: z10_def remaining_consumed r9 l)
  have r11: "remaining z11 = of_nat (length (h_name h)) # h_name h @ h_checksum h @ tail"
    by (simp add: z11_def remaining_consumed r10 l)
  have r12: "remaining z12 = h_checksum h @ tail"
    by (simp add: z12_def remaining_consumed r11)
  have r12': "remaining (if flags z12 AND flagCRC32 = 0 then z12\<lparr>adler32 := 1\<rparr> else z12\<lparr>crc32 := 0\<rparr>)
      = h_checksum h @ tail"
    by (simp add: r12)
  have r13: "remaining z13 = tail"
    by (simp add: z13_def remaining_consumed r12' l del: remaining_fields)
  have p1: "read_magic z = Inr z1"
    unfolding z1_def by (rule read_magic_ok [OF r0])
  have p2: "read_version z1 = Inr z2"
    unfolding z2_def by (rule read_version_ok [OF r1 l(1)])
  have vf: "version_f z2 = Uint16 (h_version h)"
    by (simp add: z2_def)
  have p3: "read_library_version z2 =
      (if Uint16 (h_version h) < Uint16 (h_library2 h) then Inl (ErrorsNew ''lzo: incompatible version'')
       else if Uint16 (h_library2 h) < 0x0900 then Inl (ErrorsNew ''lzo: invalid header'')
       else Inr z3)"
    unfolding z3_def vf [symmetric] by (rule read_library_version_ok [OF r2 l(2) l(3)])
  have p4: "read_method z3 = Inr z4"
    unfolding z4_def by (rule read_method_ok [OF r3])
  have p5: "read_level z4 = Inr z5"
    unfolding z5_def by (rule read_level_ok [OF r4])
  have p6: "read_flags z5 = Inr z6"
    unfolding z6_def by (rule read_flags_ok [OF r5 l(4)])
  have fl6: "flags z6 = Uint32 (h_flags h)"
    by (simp add: z6_def)
  have p7: "read_filters z6 = Inr z7"
    unfolding z7_def by (rule read_filters_ok [OF r6]) (simp add: fl6 l(5))
  have p9: "read_mode z8 = Inr z9"
    unfolding z9_def by (rule read_mode_ok [OF r8 l(6)])
  have p10: "read_modification_times z9 = Inr z10"
    unfolding z10_def by (rule read_modification_times_ok [OF r9 l(7)])
  have p11: "read_mod_time_high z10 = Inr z11"
    unfolding z11_def by (rule read_mod_time_high_ok [OF r10 l(8)])
  have p12: "read_name z11 = Inr z12"
    unfolding z12_def by (rule read_name_ok [OF r11 l(9)])
  have fl12: "flags z12 = Uint32 (h_flags h)"
    by (simp add: defs)
  have m12: "method_f z12 = h_method h"
    by (simp add: defs)
  have a12: "adler32 z12 = adler32_upd 1 (header_body h)"
    by (simp add: defs adler32_upd_append header_body_def)
  have c12: "crc32 z12 = crc32_upd 0 (header_body h)"
    by (simp add: defs crc32_upd_append header_body_def)
  have p13: "check_header_checksum z12 =
      (if Uint32 (h_checksum h) = expected_checksum h
       then (if h_method h = 0 then Inl (ErrorsNew ''lzo: incompatible method'') else Inr z13)
       else Inl (ErrorsNew ''lzo: invalid header''))"
    unfolding check_header_checksum_ok [OF r12 l(10)] z13_def expected_checksum_def fl12 m12 a12 c12
    by simp
  have main: "readHeader z = (case header_verdict h of Some e \<Rightarrow> Inl e | None \<Rightarrow> Inr z13)"
    by (simp add: readHeader_def p1 p2 p3 p4 p5 p6 p7 z8_def [symmetric] p9 p10 p11 p12 p13
        and_then_def header_verdict_def)
  have fz: "fpos (f z13) = fpos (f z) + length (header_bytes h)"
      "content (f z13) = content (f z)" "seekable (f z13) = seekable (f z)"
    using l by (simp_all add: z13_def defs header_bytes_def header_body_def length_lzoMagic)
  have props: "indexes z13 = indexes z" "err z13 = err z" "printed z13 = printed z"
      "flags z13 = Uint32 (h_flags h)" "method_f z13 = h_method h"
      "version_f z13 = Uint16 (h_version h)" "libraryVersion z13 = Uint16 (h_library2 h)"
    by (simp_all add: z13_def defs)
  have counts: "num_decompressed_checksums z13 = fst (checksum_counts (Uint32 (h_flags h)))"
      "num_compressed_checksums z13 = snd (checksum_counts (Uint32 (h_flags h)))"
    by (simp_all add: z13_def z12_def z11_def z10_def z9_def z8_def read_num_checksums_counts fl6
        z7_def)
  show ?thesis
    using main r13 fz props counts by blast
qed

lemma remaining_new:
  "remaining \<lparr>ModTime = t, Name = nm, flags = fl, version_f = v, libraryVersion = lv,
      method_f = m, num_compressed_checksums = nc, num_decompressed_checksums = nd,
      f = file, indexes = ix, adler32 = a, crc32 = c, err = e, printed = pr\<rparr>
   = drop (fpos file) (content file)"
  by (simp add: remaining_def)

lemma NewIndexer_layout:
  assumes v: "valid_layout h" and c: "content file = header_bytes h @ tail" and p: "fpos file = 0"
  shows "\<exists>z'. NewIndexer file = (case header_verdict h of Some e \<Rightarrow> Inl e | None \<Rightarrow> Inr z') \<and>
           remaining z' = tail \<and>
           fpos (f z') = length (header_bytes h) \<and>
           content (f z') = content file \<and> seekable (f z') = seekable file \<and>
           indexes z' = [] \<and> err z' = None \<and> printed z' = [] \<and>
           flags z' = Uint32 (h_flags h) \<and> method_f z' = h_method h \<and>
           version_f z' = Uint16 (h_version h) \<and> libraryVersion z' = Uint16 (h_library2 h) \<and>
           num_decompressed_checksums z' = fst (checksum_counts (Uint32 (h_flags h))) \<and>
           num_compressed_checksums z' = snd (checksum_counts (Uint32 (h_flags h)))"
proof -
  let ?z = "\<lparr>ModTime = - 62135596800, Name = [], flags = 0, version_f = 0,
       libraryVersion = 0, method_f = 0, num_compressed_checksums = 0,
       num_decompressed_checksums = 0, f = file, indexes = [], adler32 = 1, crc32 = 0,
       err = None, printed = []\<rparr>"
  have r: "remaining ?z = header_bytes h @ tail"
    by (simp add: remaining_new c p)
  from readHeader_layout [OF v r] show ?thesis
    unfolding NewIndexer_def by (simp add: p)
qed

lemma NewIndexer_bad_magic:
  assumes "length lzoMagic \<le> length bs" and "take (length lzoMagic) bs \<noteq> lzoMagic"
  shows "NewIndexer \<lparr>content = bs, fpos = 0, seekable = s\<rparr> = Inl (ErrorsNew ''lzo: invalid header'')"
proof -
  let ?z = "\<lparr>ModTime = - 62135596800, Name = [], flags = 0, version_f = 0,
       libraryVersion = 0, method_f = 0, num_compressed_checksums = 0,
       num_decompressed_checksums = 0, f = \<lparr>content = bs, fpos = 0, seekable = s\<rparr>,
       indexes = [], adler32 = 1, crc32 = 0, err = None, printed = []\<rparr>"
  have r: "remaining ?z = bs"
    by (simp add: remaining_new)
  have "read_magic ?z = Inl (ErrorsNew ''lzo: invalid header'')"
    using assms by (intro read_magic_bad) (simp_all add: r)
  then show ?thesis
    by (simp add: NewIndexer_def readHeader_def and_then_def)
qed

subsection \<open>What the header parser leaves unchanged\<close>




lemma same_file_upd [simp]:
  "same_file z (y\<lparr>crc32 := c\<rparr>) = same_file z y"
  "same_file z (y\<lparr>adler32 := a\<rparr>) = same_file z y"
  "same_file z (y\<lparr>version_f := v\<rparr>) = same_file z y"
  "same_file z (y\<lparr>libraryVersion := v\<rparr>) = same_file z y"
  "same_file z (y\<lparr>method_f := m\<rparr>) = same_file z y"
  "same_file z (y\<lparr>flags := fl\<rparr>) = same_file z y"
  "same_file z (y\<lparr>ModTime := t\<rparr>) = same_file z y"
  "same_file z (y\<lparr>Name := n\<rparr>) = same_file z y"
  "same_file z (y\<lparr>num_compressed_checksums := k\<rparr>) = same_file z y"
  "same_file z (y\<lparr>num_decompressed_checksums := k\<rparr>) = same_file z y"
  by (simp_all add: same_file_def)





















subsection \<open>More on the scanner\<close>

lemma findBlock_None_accepted:
  assumes "fst (findBlock z) = None"
  shows "accepted (remaining z)" and "seekable (f z)"
proof -
  have "accepted (remaining z) \<and> seekable (f z)"
  proof (cases z rule: findBlock_cases)
    case short1
    with assms show ?thesis by (simp add: findBlock_short1)
  next
    case sentinel
    with assms show ?thesis by (simp add: findBlock_sentinel)
  next
    case short2
    with assms show ?thesis by (simp add: findBlock_short2)
  next
    case corrupt
    with assms show ?thesis by (simp add: findBlock_corrupt [OF _ refl refl])
  next
    case noseek
    with assms show ?thesis by (simp add: findBlock_noseek [OF _ refl refl])
  next
    case valid
    then show ?thesis by (simp add: accepted_def)
  qed
  then show "accepted (remaining z)" and "seekable (f z)" by simp_all
qed

lemma findBlock_file:
  "content (f (snd (findBlock z))) = content (f z)"
  "seekable (f (snd (findBlock z))) = seekable (f z)"
proof -
  have "content (f (snd (findBlock z))) = content (f z) \<and>
        seekable (f (snd (findBlock z))) = seekable (f z)"
  proof (cases z rule: findBlock_cases)
    case short1
    then show ?thesis by (simp add: findBlock_short1)
  next
    case sentinel
    then show ?thesis by (simp add: findBlock_sentinel)
  next
    case short2
    then show ?thesis by (simp add: findBlock_short2)
  next
    case corrupt
    then show ?thesis by (simp add: findBlock_corrupt [OF _ refl refl])
  next
    case noseek
    then show ?thesis by (simp add: findBlock_noseek [OF _ refl refl])
  next
    case valid
    then show ?thesis by (simp add: findBlock_ok [OF _ refl refl])
  qed
  then show "content (f (snd (findBlock z))) = content (f z)"
    and "seekable (f (snd (findBlock z))) = seekable (f z)" by simp_all
qed

lemma scan_file:
  "content (f (scan z)) = content (f z) \<and> seekable (f (scan z)) = seekable (f z)"
proof (induction z rule: scan.induct)
  case (1 z)
  show ?case
  proof (cases "fst (findBlock z) = None")
    case True
    then have "err (snd (findBlock z)) = None" by (simp add: findBlock_err)
    then have "content (f (scan (snd (findBlock z)))) = content (f (snd (findBlock z))) \<and>
        seekable (f (scan (snd (findBlock z)))) = seekable (f (snd (findBlock z)))"
      by (intro "1.IH") simp_all
    then show ?thesis
      by (simp add: scan_step [OF True] findBlock_file)
  next
    case False
    then show ?thesis
      by (simp add: scan_stop findBlock_file)
  qed
qed

lemma sentinel_terminal:
  "\<not> accepted ([0, 0, 0, 0] @ rest)" "terminal_error ([0, 0, 0, 0] @ rest) = EOF"
  by (simp_all add: accepted_def terminal_error_def Uint32_def)

lemma NewIndexer_scan_blocks:
  assumes v: "valid_layout h" and ok: "header_verdict h = None"
    and bl: "list_all (valid_block (fst (checksum_counts (Uint32 (h_flags h))))
               (snd (checksum_counts (Uint32 (h_flags h))))) bs"
    and c: "content file = header_bytes h @ concat (map block_bytes bs) @ tail"
    and p: "fpos file = 0" and s: "seekable file" and t: "\<not> accepted tail"
  obtains z where "NewIndexer file = Inr z"
    and "indexes (scan z) = block_offsets (length (header_bytes h)) bs"
    and "err (scan z) = Some (terminal_error tail)"
    and "content (f z) = content file" and "seekable (f z)"
proof -
  obtain z where z: "NewIndexer file = Inr z" "remaining z = concat (map block_bytes bs) @ tail"
      "fpos (f z) = length (header_bytes h)" "content (f z) = content file"
      "seekable (f z) = seekable file" "indexes z = []"
      "num_decompressed_checksums z = fst (checksum_counts (Uint32 (h_flags h)))"
      "num_compressed_checksums z = snd (checksum_counts (Uint32 (h_flags h)))"
    using NewIndexer_layout [OF v c p] by (auto simp: ok)
  have bl': "list_all (valid_block (num_decompressed_checksums z) (num_compressed_checksums z)) bs"
    using bl by (simp add: z(7,8))
  have sk: "seekable (f z)" using s by (simp add: z(5))
  have "indexes (scan z) = block_offsets (length (header_bytes h)) bs"
    using scan_blocks_terminal(1) [OF bl' z(2) sk t] by (simp add: z(3,6))
  moreover have "err (scan z) = Some (terminal_error tail)"
    by (rule scan_blocks_terminal(2) [OF bl' z(2) sk t])
  ultimately show thesis
    using z(1,4) sk by (intro that [of z]) simp_all
qed



subsection \<open>Reading back at a recorded offset\<close>

lemma block_offsets_address:
  assumes i: "i < length bs" and v: "list_all (valid_block ndc ncc) bs"
    and c: "bytes = pre @ concat (map block_bytes bs) @ tail"
  shows "take 4 (drop (nat (block_offsets (length pre) bs ! i)) bytes) = dst_field (bs ! i)"
proof -
  define before where "before = pre @ concat (map block_bytes (take i bs))"
  define after where "after = concat (map block_bytes (drop (Suc i) bs)) @ tail"
  have "valid_block ndc ncc (bs ! i)"
    using v i by (simp add: list_all_length)
  then have l: "length (dst_field (bs ! i)) = 4"
    by (simp add: valid_block_def)
  have "concat (map block_bytes bs) =
      concat (map block_bytes (take i bs)) @ block_bytes (bs ! i) @ concat (map block_bytes (drop (Suc i) bs))"
    by (subst id_take_nth_drop [OF i]) simp
  then have b: "bytes = before @ block_bytes (bs ! i) @ after"
    by (simp add: c before_def after_def)
  have o: "nat (block_offsets (length pre) bs ! i) = length before"
    by (simp add: block_offsets_nth [OF i] before_def del: length_concat)
  have "drop (nat (block_offsets (length pre) bs ! i)) bytes = block_bytes (bs ! i) @ after"
    unfolding o b by simp
  then show ?thesis
    using l by (simp add: block_bytes_def)
qed

lemma block_offsets_nonneg:
  "i < length bs \<Longrightarrow> 0 \<le> block_offsets p bs ! i"
  by (simp add: block_offsets_nth)

lemma read_uint32_at:
  assumes "seekable file" and "0 \<le> off" and "take 4 (drop (nat off) (content file)) = bs"
    and "length bs = 4"
  shows "fst (read_uint32 (z\<lparr>f := snd (Seek_set off file)\<rparr>)) = Inr (Uint32 bs)"
proof -
  have r: "remaining (z\<lparr>f := snd (Seek_set off file)\<rparr>) = drop (nat off) (content file)"
    using assms(1,2) by (simp add: remaining_def Seek_set_def)
  have "4 \<le> length (drop (nat off) (content file))"
    using assms(3,4) by (metis length_take min.cobounded1)
  then show ?thesis
    using assms(3) by (simp add: read_uint32_ok r)
qed

subsection \<open>The paths of the entry point\<close>

lemma write_indexes_Nil_or_panic:
  "write_indexes name xs fs = (if xs = [] then None else Some IndexOutOfRange, fs)"
  by (cases xs) (simp_all add: PutUint64_def)

lemma CreateIndex_no_source:
  "files fs filename = None \<Longrightarrow> CreateIndex fs filename = (Return (Some ErrNotExist), fs)"
  by (simp add: CreateIndex_def os_Open_def)

lemma CreateIndex_no_create:
  "files fs filename = Some bytes \<Longrightarrow> filename @ ''.index'' \<in> protected fs \<Longrightarrow>
   CreateIndex fs filename = (Return (Some ErrPermission), fs)"
  by (simp add: CreateIndex_def os_Open_def os_Create_def)

lemma CreateIndex_header_error:
  "files fs filename = Some bytes \<Longrightarrow> filename @ ''.index'' \<notin> protected fs \<Longrightarrow>
   NewIndexer \<lparr>content = bytes, fpos = 0, seekable = True\<rparr> = Inl e \<Longrightarrow>
   CreateIndex fs filename =
     (Panic NilPointerDereference, fs\<lparr>files := (files fs)(filename @ ''.index'' \<mapsto> [])\<rparr>)"
  by (simp add: CreateIndex_def os_Open_def os_Create_def)

lemma CreateIndex_scan:
  "files fs filename = Some bytes \<Longrightarrow> filename @ ''.index'' \<notin> protected fs \<Longrightarrow>
   NewIndexer \<lparr>content = bytes, fpos = 0, seekable = True\<rparr> = Inr z \<Longrightarrow>
   CreateIndex fs filename =
     (if err (scan z) = Some EOF
      then (if indexes (scan z) = [] then Return None else Panic IndexOutOfRange)
      else Return (err (scan z)),
      fs\<lparr>files := (files fs)(filename @ ''.index'' \<mapsto> [])\<rparr>)"
  by (simp add: CreateIndex_def os_Open_def os_Create_def write_indexes_Nil_or_panic Let_def)


subsection \<open>The example files\<close>

lemma example_header_valid: "valid_layout example_header"
  by (simp add: valid_layout_def example_header_def Uint32_def flagFilter_def)

lemma example_header_flags: "Uint32 (h_flags example_header) = 0"
  by (simp add: example_header_def Uint32_def)

lemma example_header_body:
  "header_body example_header =
     [0x10, 0x30, 0x09, 0x40, 0x09, 0x40, 1, 5, 0, 0, 0, 0, 0, 0, 0x81, 0xa4, 0x5f, 0, 0, 0,
      0, 0, 0, 0, 0]"
  by (simp add: header_body_def example_header_def)

lemma example_header_checksum: "expected_checksum example_header = 0x21ec025d"
  unfolding expected_checksum_def example_header_flags example_header_body
  by (simp add: adler32_upd_def adler32_step_def)

lemma example_header_verdict: "header_verdict example_header = None"
  unfolding header_verdict_def example_header_checksum
  by (simp add: example_header_def Uint16_def Uint32_def)

lemma example_counts: "checksum_counts 0 = (0, 0)"
  by (simp add: checksum_counts_def)

lemma example_blocks_valid: "list_all (valid_block 0 0) example_blocks"
  by (simp add: example_blocks_def valid_block_def Uint32_def)

lemma example_header_length: "length (header_bytes example_header) = 38"
  by (simp add: header_bytes_def example_header_body length_lzoMagic) (simp add: example_header_def)







lemma example_indexer:
  obtains z where
    "NewIndexer \<lparr>content = header_bytes example_header @ tail, fpos = 0, seekable = True\<rparr> = Inr z"
    and "remaining z = tail" and "fpos (f z) = 38"
    and "content (f z) = header_bytes example_header @ tail" and "seekable (f z)"
    and "indexes z = []" and "err z = None"
    and "num_decompressed_checksums z = 0" and "num_compressed_checksums z = 0"
proof -
  have l: "length (header_bytes example_header) = 38"
    by (simp add: header_bytes_def example_header_body length_lzoMagic) (simp add: example_header_def)
  from NewIndexer_layout [OF example_header_valid, of
      "\<lparr>content = header_bytes example_header @ tail, fpos = 0, seekable = True\<rparr>" tail]
  obtain z' where "NewIndexer \<lparr>content = header_bytes example_header @ tail, fpos = 0, seekable = True\<rparr>
        = Inr z'"
    "remaining z' = tail" "fpos (f z') = 38"
    "content (f z') = header_bytes example_header @ tail" "seekable (f z')"
    "indexes z' = []" "err z' = None"
    "num_decompressed_checksums z' = 0" "num_compressed_checksums z' = 0"
    by (auto simp: example_header_verdict example_header_flags example_counts l)
  then show thesis by (rule that)
qed


lemma example_file_scan:
  obtains z where "NewIndexer \<lparr>content = example_file, fpos = 0, seekable = True\<rparr> = Inr z"
    and "err (scan z) = Some EOF" and "indexes (scan z) = [38, 48]"
proof -
  have bl: "list_all (valid_block (fst (checksum_counts (Uint32 (h_flags example_header))))
               (snd (checksum_counts (Uint32 (h_flags example_header))))) example_blocks"
    using example_blocks_valid by (simp add: example_header_flags example_counts)
  have o: "block_offsets 38 example_blocks = [38, 48]"
    by (simp add: example_blocks_def block_bytes_def)
  obtain z where "NewIndexer \<lparr>content = example_file, fpos = 0, seekable = True\<rparr> = Inr z"
      "indexes (scan z) = block_offsets (length (header_bytes example_header)) example_blocks"
      "err (scan z) = Some (terminal_error ([0, 0, 0, 0] @ []))"
    using NewIndexer_scan_blocks [OF example_header_valid example_header_verdict bl _ _ _
        sentinel_terminal(1) [of "[]"], of "\<lparr>content = example_file, fpos = 0, seekable = True\<rparr>"]
    by (auto simp: example_file_def)
  then show thesis
    using sentinel_terminal(2) [of "[]"] by (intro that [of z]) (simp_all add: example_header_length o)
qed

subsection \<open>The file of the older format\<close>

lemma old_format_file_as_parsed:
  "old_format_file =
     header_bytes old_format_as_parsed @ concat (map block_bytes [name_block]) @ [0, 0, 0, 0] @
     ([0x78, 0x49, 0x05, 0xad] @ concat (map block_bytes example_blocks) @ [0, 0, 0, 0])"
  by (simp add: old_format_file_def old_format_body_def old_format_name_def header_bytes_def
      header_body_def old_format_as_parsed_def name_block_def block_bytes_def)

lemma old_format_as_parsed_valid: "valid_layout old_format_as_parsed"
  by (simp add: valid_layout_def old_format_as_parsed_def Uint32_def flagFilter_def)

lemma old_format_as_parsed_flags: "Uint32 (h_flags old_format_as_parsed) = 0"
  by (simp add: old_format_as_parsed_def Uint32_def)

lemma old_format_as_parsed_body:
  "header_body old_format_as_parsed =
     [0x09, 0x3f, 0x09, 0x00, 0x09, 0x00, 1, 0, 0, 0, 0, 0, 0xa4, 0x5f, 0, 0, 0, 0x18, 0x61, 0x62,
      0x63, 0x64, 0x65, 0x66, 0]"
  by (simp add: header_body_def old_format_as_parsed_def)

lemma old_format_as_parsed_checksum: "expected_checksum old_format_as_parsed = 0x207603cc"
  unfolding expected_checksum_def old_format_as_parsed_flags old_format_as_parsed_body
  by (simp add: adler32_upd_def adler32_step_def)

lemma old_format_as_parsed_verdict: "header_verdict old_format_as_parsed = None"
  unfolding header_verdict_def old_format_as_parsed_checksum
  by (simp add: old_format_as_parsed_def Uint16_def Uint32_def)

lemma old_format_as_parsed_length: "length (header_bytes old_format_as_parsed) = 38"
  by (simp add: header_bytes_def old_format_as_parsed_body length_lzoMagic)
     (simp add: old_format_as_parsed_def)

lemma name_block_valid: "list_all (valid_block 0 0) [name_block]"
  by (simp add: name_block_def valid_block_def Uint32_def)

lemma old_format_checksum: "adler32_upd 1 old_format_body = 0x784905ad"
  by (simp add: old_format_body_def old_format_name_def adler32_upd_def adler32_step_def)

lemma old_format_file_scan:
  obtains z where "NewIndexer \<lparr>content = old_format_file, fpos = 0, seekable = True\<rparr> = Inr z"
    and "err (scan z) = Some EOF" and "indexes (scan z) = [38]"
proof -
  have bl: "list_all (valid_block (fst (checksum_counts (Uint32 (h_flags old_format_as_parsed))))
               (snd (checksum_counts (Uint32 (h_flags old_format_as_parsed))))) [name_block]"
    using name_block_valid by (simp add: old_format_as_parsed_flags example_counts)
  have o: "block_offsets 38 [name_block] = [38]"
    by simp
  obtain z where "NewIndexer \<lparr>content = old_format_file, fpos = 0, seekable = True\<rparr> = Inr z"
      "indexes (scan z) = block_offsets (length (header_bytes old_format_as_parsed)) [name_block]"
      "err (scan z) = Some (terminal_error ([0, 0, 0, 0] @
         ([0x78, 0x49, 0x05, 0xad] @ concat (map block_bytes example_blocks) @ [0, 0, 0, 0])))"
    using NewIndexer_scan_blocks [OF old_format_as_parsed_valid old_format_as_parsed_verdict bl _ _ _
        sentinel_terminal(1), of "\<lparr>content = old_format_file, fpos = 0, seekable = True\<rparr>"]
    by (auto simp: old_format_file_as_parsed)
  then show thesis
    using sentinel_terminal(2) by (intro that [of z]) (simp_all add: old_format_as_parsed_length)
qed


lemma old_format_flags_counts: "checksum_counts (Uint32 [0, 1, 0, 0]) = (0, 0)"
  by (simp add: checksum_counts_def Uint32_def flagAdler32D_def flagAdler32C_def flagCRC32D_def
      flagCRC32C_def)

lemma old_format_name_field: "take 24 (drop 27 old_format_file) = old_format_name"
  by (simp add: old_format_file_def old_format_body_def old_format_name_def lzoMagic_def)

lemma old_format_read_at_38:
  "fst (read_uint32 (z\<lparr>f := snd (Seek_set 38 \<lparr>content = old_format_file, fpos = 0, seekable = True\<rparr>)\<rparr>))
     = Inr 1"
proof -
  have "take 4 (drop (nat 38) (content \<lparr>content = old_format_file, fpos = 0, seekable = True\<rparr>))
      = [0, 0, 0, 1]"
    by (simp add: old_format_file_def old_format_body_def old_format_name_def lzoMagic_def)
  then have "fst (read_uint32 (z\<lparr>f := snd (Seek_set 38 \<lparr>content = old_format_file, fpos = 0, seekable = True\<rparr>)\<rparr>))
     = Inr (Uint32 [0, 0, 0, 1])"
    by (intro read_uint32_at) simp_all
  then show ?thesis
    by (simp add: Uint32_def)
qed

subsection \<open>Files whose header has every optional field\<close>

text \<open>
  For a header of the layout that \<open>readHeader\<close> consumes, with the second library
  version, the level and the high modification time: a block that passes the checks is
  recorded and the file is sought to the next block, two stored blocks give two offsets,
  and on valid blocks followed by the sentinel the offsets are strictly increasing and
  each one addresses the \<open>dstLen\<close> field of its block.
\<close>

lemma findBlock_seeks_to_next_block:
  "(8 \<le> length (remaining z) \<and> dstLen = Uint32 (take 4 (remaining z)) \<and>
    srcLen = Uint32 (take 4 (drop 4 (remaining z))) \<and>
    dstLen \<noteq> 0 \<and> 0 < srcLen \<and> srcLen \<le> dstLen \<and> seekable (f z) \<longrightarrow>
      fst (findBlock z) = None \<and>
      indexes (snd (findBlock z)) = indexes z @ [int (fpos (f z))] \<and>
      fpos (f (snd (findBlock z))) =
        fpos (f z) + 8 +
        4 * (num_decompressed_checksums z + (if srcLen = dstLen then num_compressed_checksums z else 0)) +
        unat srcLen) \<and>
   (valid_layout h \<and> header_verdict h = None \<and> checksum_counts (Uint32 (h_flags h)) = (0, 0) \<and>
    valid_block 0 0 b1 \<and> valid_block 0 0 b2 \<and>
    Uint32 (src_field b1) = Uint32 (dst_field b1) \<and> Uint32 (src_field b2) = Uint32 (dst_field b2) \<and>
    content file = header_bytes h @ block_bytes b1 @ block_bytes b2 @ [0, 0, 0, 0] \<and>
    fpos file = 0 \<and> seekable file \<longrightarrow>
      (\<exists>z. NewIndexer file = Inr z \<and> err (scan z) = Some EOF \<and>
        indexes (scan z) =
          [int (length (header_bytes h)),
           int (length (header_bytes h)) + 8 + uint (Uint32 (src_field b1))]))"
proof (intro conjI impI)
  assume a: "8 \<le> length (remaining z) \<and> dstLen = Uint32 (take 4 (remaining z)) \<and>
    srcLen = Uint32 (take 4 (drop 4 (remaining z))) \<and>
    dstLen \<noteq> 0 \<and> 0 < srcLen \<and> srcLen \<le> dstLen \<and> seekable (f z)"
  then have "0 < srcLen" by blast
  then have n: "srcLen \<noteq> 0" by (simp add: word_gt_0)
  have fb: "findBlock z = (None, 
     (consumed (take 4 (drop 4 (remaining z))) ((consumed (take 4 (remaining z)) z)\<lparr>err := None\<rparr>))
       \<lparr>err := None, printed := printed z @ [int (fpos (f z)) + 8],
         indexes := indexes z @ [int (fpos (f z))],
         f := (f z)\<lparr>fpos := fpos (f z) + 8 +
            4 * (num_decompressed_checksums z + (if dstLen = srcLen then num_compressed_checksums z else 0)) + unat srcLen\<rparr>\<rparr>)"
    using a n by (intro findBlock_ok) blast+
  show "fst (findBlock z) = None" by (simp add: fb)
  show "indexes (snd (findBlock z)) = indexes z @ [int (fpos (f z))]" by (simp add: fb)
  show "fpos (f (snd (findBlock z))) =
        fpos (f z) + 8 +
        4 * (num_decompressed_checksums z + (if srcLen = dstLen then num_compressed_checksums z else 0)) +
        unat srcLen"
    by (simp add: fb eq_commute [of srcLen dstLen])
next
  assume a: "valid_layout h \<and> header_verdict h = None \<and> checksum_counts (Uint32 (h_flags h)) = (0, 0) \<and>
    valid_block 0 0 b1 \<and> valid_block 0 0 b2 \<and>
    Uint32 (src_field b1) = Uint32 (dst_field b1) \<and> Uint32 (src_field b2) = Uint32 (dst_field b2) \<and>
    content file = header_bytes h @ block_bytes b1 @ block_bytes b2 @ [0, 0, 0, 0] \<and>
    fpos file = 0 \<and> seekable file"
  have bl: "list_all (valid_block (fst (checksum_counts (Uint32 (h_flags h))))
               (snd (checksum_counts (Uint32 (h_flags h))))) [b1, b2]"
    using a by simp
  have c: "content file = header_bytes h @ concat (map block_bytes [b1, b2]) @ ([0, 0, 0, 0] @ [])"
    using a by simp
  obtain z where z: "NewIndexer file = Inr z"
    "indexes (scan z) = block_offsets (length (header_bytes h)) [b1, b2]"
    "err (scan z) = Some (terminal_error ([0, 0, 0, 0] @ []))"
    using NewIndexer_scan_blocks [OF _ _ bl c _ _ sentinel_terminal(1)] a by metis
  have l: "int (length (block_bytes b1)) = 8 + uint (Uint32 (src_field b1))"
    using a by (simp add: valid_block_def block_bytes_def)
  show "\<exists>z. NewIndexer file = Inr z \<and> err (scan z) = Some EOF \<and>
        indexes (scan z) =
          [int (length (header_bytes h)),
           int (length (header_bytes h)) + 8 + uint (Uint32 (src_field b1))]"
    using z l sentinel_terminal(2) [of "[]"] by (intro exI [of _ z]) simp
qed

lemma scan_offsets_address_blocks:
  assumes "valid_layout h" and "header_verdict h = None"
    and "list_all (valid_block (fst (checksum_counts (Uint32 (h_flags h))))
               (snd (checksum_counts (Uint32 (h_flags h))))) bs"
    and "content file = header_bytes h @ concat (map block_bytes bs) @ [0, 0, 0, 0] @ rest"
    and "fpos file = 0" and "seekable file"
  shows "\<exists>z. NewIndexer file = Inr z \<and> err (scan z) = Some EOF \<and>
           length (indexes (scan z)) = length bs \<and>
           sorted_wrt (<) (indexes (scan z)) \<and>
           (\<forall>i < length bs.
              fst (read_uint32 (z\<lparr>f := snd (Seek_set (indexes (scan z) ! i) file)\<rparr>)) =
                Inr (Uint32 (dst_field (bs ! i))))"
proof -
  obtain z where z: "NewIndexer file = Inr z"
    "indexes (scan z) = block_offsets (length (header_bytes h)) bs"
    "err (scan z) = Some (terminal_error ([0, 0, 0, 0] @ rest))"
    using NewIndexer_scan_blocks [OF assms(1-6) sentinel_terminal(1)] by metis
  have e: "err (scan z) = Some EOF"
    by (simp only: z(3) sentinel_terminal(2))
  have s: "sorted_wrt (<) (indexes (scan z))"
    unfolding z(2) using assms(3) by (rule block_offsets_sorted)
  have a: "fst (read_uint32 (z\<lparr>f := snd (Seek_set (indexes (scan z) ! i) file)\<rparr>)) =
                Inr (Uint32 (dst_field (bs ! i)))" if i: "i < length bs" for i
  proof -
    have "valid_block (fst (checksum_counts (Uint32 (h_flags h))))
               (snd (checksum_counts (Uint32 (h_flags h)))) (bs ! i)"
      using assms(3) i by (simp add: list_all_length)
    then have l: "length (dst_field (bs ! i)) = 4"
      by (simp add: valid_block_def)
    show ?thesis
      unfolding z(2)
      by (rule read_uint32_at [OF assms(6) block_offsets_nonneg [OF i]
            block_offsets_address [OF i assms(3) assms(4)] l])
  qed
  show ?thesis
    using z(1) e s a by (intro exI [of _ z]) (simp add: z(2))
qed

section \<open>The properties of the specification\<close>




text \<open>
  C2: the writing loop passes a slice of length 0 to \<open>PutUint64\<close>, which panics on it. On
  the example file, whose scan ends in \<open>io.EOF\<close> with the offsets 38 and 48, \<open>CreateIndex\<close>
  panics at the first offset and the index file stays empty, where 16 bytes are expected.
\<close>

theorem index_writer_panics:
  "PutUint64 [] 38 = Inl IndexOutOfRange \<and>
   (\<exists>z. NewIndexer \<lparr>content = example_file, fpos = 0, seekable = True\<rparr> = Inr z \<and>
        err (scan z) = Some EOF \<and> indexes (scan z) = [38, 48]) \<and>
   CreateIndex \<lparr>files = [''a.lzo'' \<mapsto> example_file], protected = {}\<rparr> ''a.lzo'' =
     (Panic IndexOutOfRange,
      \<lparr>files = [''a.lzo'' \<mapsto> example_file, ''a.lzo.index'' \<mapsto> []], protected = {}\<rparr>)"
proof -
  obtain z where z: "NewIndexer \<lparr>content = example_file, fpos = 0, seekable = True\<rparr> = Inr z"
    "err (scan z) = Some EOF" "indexes (scan z) = [38, 48]"
    by (rule example_file_scan)
  have "CreateIndex \<lparr>files = [''a.lzo'' \<mapsto> example_file], protected = {}\<rparr> ''a.lzo'' =
     (Panic IndexOutOfRange,
      \<lparr>files = [''a.lzo'' \<mapsto> example_file, ''a.lzo.index'' \<mapsto> []], protected = {}\<rparr>)"
    using CreateIndex_scan [of "\<lparr>files = [''a.lzo'' \<mapsto> example_file], protected = {}\<rparr>"
        "''a.lzo''" example_file z] z
    by simp
  moreover have "PutUint64 [] 38 = Inl IndexOutOfRange"
    by (simp add: PutUint64_def)
  ultimately show ?thesis
    using z by blast
qed

text \<open>
  C3: the error of \<open>NewIndexer\<close> is dropped. On a file of nine zero bytes the header is
  rejected with \<open>lzo: invalid header\<close>, the indexer is nil, and \<open>CreateIndex\<close> panics on a
  nil pointer instead of returning the error.
\<close>

theorem CreateIndex_panics_on_header_error:
  "NewIndexer \<lparr>content = [0, 0, 0, 0, 0, 0, 0, 0, 0], fpos = 0, seekable = True\<rparr> =
     Inl (ErrorsNew ''lzo: invalid header'') \<and>
   CreateIndex \<lparr>files = [''a.lzo'' \<mapsto> [0, 0, 0, 0, 0, 0, 0, 0, 0]], protected = {}\<rparr> ''a.lzo'' =
     (Panic NilPointerDereference,
      \<lparr>files = [''a.lzo'' \<mapsto> [0, 0, 0, 0, 0, 0, 0, 0, 0], ''a.lzo.index'' \<mapsto> []],
       protected = {}\<rparr>)"
proof -
  have n: "NewIndexer \<lparr>content = [0, 0, 0, 0, 0, 0, 0, 0, 0], fpos = 0, seekable = True\<rparr> =
     Inl (ErrorsNew ''lzo: invalid header'')"
    by (rule NewIndexer_bad_magic) (simp_all add: lzoMagic_def)
  then show ?thesis
    using CreateIndex_header_error
      [of "\<lparr>files = [''a.lzo'' \<mapsto> [0, 0, 0, 0, 0, 0, 0, 0, 0]], protected = {}\<rparr>" "''a.lzo''"
        "[0, 0, 0, 0, 0, 0, 0, 0, 0]" "ErrorsNew ''lzo: invalid header''"]
    by simp
qed

text \<open>
  C4: the guard after the version field compares the package constant \<open>version\<close>, not the
  field: on the magic followed by the version \<open>0x0800\<close> and nothing else, the parser goes
  on to read the library version and returns \<open>io.EOF\<close>, which is no format error.
\<close>

theorem version_below_minimum_not_rejected:
  "Uint16 [0x08, 0x00] < 0x0900 \<and>
   NewIndexer \<lparr>content = lzoMagic @ [0x08, 0x00], fpos = 0, seekable = True\<rparr> = Inl EOF \<and>
   \<not> FormatError EOF"
proof -
  let ?z = "\<lparr>ModTime = - 62135596800, Name = [], flags = 0, version_f = 0,
       libraryVersion = 0, method_f = 0, num_compressed_checksums = 0,
       num_decompressed_checksums = 0,
       f = \<lparr>content = lzoMagic @ [0x08, 0x00], fpos = 0, seekable = True\<rparr>,
       indexes = [], adler32 = 1, crc32 = 0, err = None, printed = []\<rparr>"
  let ?z1 = "(consumed lzoMagic ?z)\<lparr>crc32 := 0, adler32 := 1\<rparr>"
  let ?z2 = "(consumed [0x08, 0x00] ?z1)\<lparr>version_f := Uint16 [0x08, 0x00]\<rparr>"
  have r: "remaining ?z = lzoMagic @ [0x08, 0x00]"
    by (simp add: remaining_new)
  have p1: "read_magic ?z = Inr ?z1"
    by (rule read_magic_ok [OF r])
  have r1: "remaining ?z1 = [0x08, 0x00]"
    by (simp add: remaining_consumed r)
  have p2: "read_version ?z1 = Inr ?z2"
    using read_version_ok [of ?z1 "[0x08, 0x00]" "[]"] r1 by simp
  have r2: "remaining ?z2 = []"
    using r1 by (simp add: remaining_consumed)
  have p3: "read_library_version ?z2 = Inl EOF"
    using r2 by (simp add: read_library_version_def then_read_uint16_short and_then_def)
  have "NewIndexer \<lparr>content = lzoMagic @ [0x08, 0x00], fpos = 0, seekable = True\<rparr> = Inl EOF"
    unfolding NewIndexer_def readHeader_def p1 and_then_def sum.case p2 p3 ..
  moreover have "Uint16 [0x08, 0x00] < 0x0900"
    by (simp add: Uint16_def)
  ultimately show ?thesis
    by (simp add: FormatError_def)
qed

text \<open>
  C5: the scenario fails on \<open>old_format_file\<close>, a header of format version \<open>0x093f\<close> with
  no checksum flag and a right header checksum, followed by two stored blocks at the
  offsets 55 and 65 and by the sentinel. The thresholds of \<open>readHeader\<close> test the package
  constant \<open>version\<close>, so the parser reads the three optional fields that this header does
  not have, stops at offset 38, and the scan ends in \<open>io.EOF\<close> with the one offset 38,
  where two offsets, 55 and 65, are expected.
\<close>

theorem old_format_two_blocks_one_offset:
  "old_format_file =
     lzoMagic @ ([0x09, 0x3f] @ [0x09, 0x00] @ [9] @ [0, 1, 0, 0] @ [0, 0, 0, 0xa4] @
       [0x5f, 0, 0, 0] @ [24] @ old_format_name) @ [0x78, 0x49, 0x05, 0xad] @
     block_bytes (example_blocks ! 0) @ block_bytes (example_blocks ! 1) @ [0, 0, 0, 0] \<and>
   Uint16 [0x09, 0x3f] < 0x0940 \<and> checksum_counts (Uint32 [0, 1, 0, 0]) = (0, 0) \<and>
   Uint32 [0, 1, 0, 0] AND flagFilter = 0 \<and> Uint32 [0, 1, 0, 0] AND flagCRC32 = 0 \<and>
   length old_format_name = 24 \<and>
   adler32_upd 1 old_format_body = Uint32 [0x78, 0x49, 0x05, 0xad] \<and>
   list_all (valid_block 0 0) example_blocks \<and>
   map (\<lambda>b. (Uint32 (dst_field b), Uint32 (src_field b))) example_blocks = [(2, 2), (3, 3)] \<and>
   block_offsets (length (lzoMagic @ old_format_body @ [0x78, 0x49, 0x05, 0xad])) example_blocks =
     [55, 55 + 8 + 2] \<and>
   (\<exists>z. NewIndexer \<lparr>content = old_format_file, fpos = 0, seekable = True\<rparr> = Inr z \<and>
        err (scan z) = Some EOF \<and> indexes (scan z) = [38])"
proof -
  obtain z where z: "NewIndexer \<lparr>content = old_format_file, fpos = 0, seekable = True\<rparr> = Inr z"
    "err (scan z) = Some EOF" "indexes (scan z) = [38]"
    by (rule old_format_file_scan)
  have 1: "old_format_file =
     lzoMagic @ ([0x09, 0x3f] @ [0x09, 0x00] @ [9] @ [0, 1, 0, 0] @ [0, 0, 0, 0xa4] @
       [0x5f, 0, 0, 0] @ [24] @ old_format_name) @ [0x78, 0x49, 0x05, 0xad] @
     block_bytes (example_blocks ! 0) @ block_bytes (example_blocks ! 1) @ [0, 0, 0, 0]"
    by (simp add: old_format_file_def old_format_body_def example_blocks_def)
  have 2: "Uint16 [0x09, 0x3f] < 0x0940"
    by (simp add: Uint16_def)
  have 3: "length old_format_name = 24"
    by (simp add: old_format_name_def)
  have 4: "adler32_upd 1 old_format_body = Uint32 [0x78, 0x49, 0x05, 0xad]"
    by (simp add: old_format_checksum Uint32_def)
  have 5: "map (\<lambda>b. (Uint32 (dst_field b), Uint32 (src_field b))) example_blocks = [(2, 2), (3, 3)]"
    by (simp add: example_blocks_def Uint32_def)
  have 6: "block_offsets (length (lzoMagic @ old_format_body @ [0x78, 0x49, 0x05, 0xad])) example_blocks =
     [55, 55 + 8 + 2]"
    by (simp add: old_format_body_def old_format_name_def length_lzoMagic example_blocks_def
        block_bytes_def)
  have 7: "Uint32 [0, 1, 0, 0] AND flagFilter = 0" "Uint32 [0, 1, 0, 0] AND flagCRC32 = 0"
    by (simp_all add: Uint32_def flagFilter_def flagCRC32_def)
  show ?thesis
    using 1 2 3 4 5 6 7 old_format_flags_counts example_blocks_valid z by blast
qed




text \<open>
  C7: once both size fields of a block are read and \<open>dstLen\<close> is not 0, \<open>findBlock\<close>
  fails with \<open>lzo: data corruption\<close> exactly when \<open>srcLen = 0\<close> or \<open>srcLen > dstLen\<close>; a
  block with \<open>0 < srcLen \<le> dstLen\<close> is accepted (on a file that can seek): no error, and
  its offset is recorded.
\<close>

theorem findBlock_data_corruption_iff:
  assumes "8 \<le> length (remaining z)"
    and "dstLen = Uint32 (take 4 (remaining z))"
    and "srcLen = Uint32 (take 4 (drop 4 (remaining z)))"
    and "dstLen \<noteq> 0"
  shows "(fst (findBlock z) = Some (ErrorsNew ''lzo: data corruption'')) = (srcLen = 0 \<or> dstLen < srcLen)
    \<and> (0 < srcLen \<and> srcLen \<le> dstLen \<and> seekable (f z) \<longrightarrow>
         fst (findBlock z) = None \<and> indexes (snd (findBlock z)) = indexes z @ [int (fpos (f z))])"
proof (cases "srcLen = 0 \<or> dstLen < srcLen")
  case True
  then show ?thesis
    using findBlock_corrupt [OF assms(1-4)] by (auto simp: word_gt_0)
next
  case False
  then have ok: "srcLen \<noteq> 0" "srcLen \<le> dstLen"
    by (simp_all add: not_less)
  show ?thesis
  proof (cases "seekable (f z)")
    case True
    then show ?thesis
      using False findBlock_ok [OF assms(1-4) ok True] by simp
  next
    case seek: False
    then show ?thesis
      using False findBlock_noseek [OF assms(1-4) ok seek] by simp
  qed
qed

theorem findBlock_data_corruption_iff_witness:
  "(let z = projr (NewIndexer \<lparr>content = header_bytes example_header @
        [0, 0, 0, 2, 0, 0, 0, 2, 0xAA, 0xBB, 0, 0, 0, 0], fpos = 0, seekable = True\<rparr>)
    in fst (findBlock z) = None \<and> indexes (snd (findBlock z)) = [38]) \<and>
   (let z = projr (NewIndexer \<lparr>content = header_bytes example_header @
        [0, 0, 0, 2, 0, 0, 0, 3, 0xAA, 0xBB, 0xCC, 0, 0, 0, 0], fpos = 0, seekable = True\<rparr>)
    in fst (findBlock z) = Some (ErrorsNew ''lzo: data corruption''))"
proof -
  obtain z where z: "NewIndexer \<lparr>content = header_bytes example_header @
        [0, 0, 0, 2, 0, 0, 0, 2, 0xAA, 0xBB, 0, 0, 0, 0], fpos = 0, seekable = True\<rparr> = Inr z"
      "remaining z = [0, 0, 0, 2, 0, 0, 0, 2, 0xAA, 0xBB, 0, 0, 0, 0]" "fpos (f z) = 38"
      "content (f z) = header_bytes example_header @ [0, 0, 0, 2, 0, 0, 0, 2, 0xAA, 0xBB, 0, 0, 0, 0]"
      "seekable (f z)" "indexes z = []" "err z = None"
      "num_decompressed_checksums z = 0" "num_compressed_checksums z = 0"
    by (rule example_indexer)
  obtain y where y: "NewIndexer \<lparr>content = header_bytes example_header @
        [0, 0, 0, 2, 0, 0, 0, 3, 0xAA, 0xBB, 0xCC, 0, 0, 0, 0], fpos = 0, seekable = True\<rparr> = Inr y"
      "remaining y = [0, 0, 0, 2, 0, 0, 0, 3, 0xAA, 0xBB, 0xCC, 0, 0, 0, 0]" "fpos (f y) = 38"
      "content (f y) = header_bytes example_header @ [0, 0, 0, 2, 0, 0, 0, 3, 0xAA, 0xBB, 0xCC, 0, 0, 0, 0]"
      "seekable (f y)" "indexes y = []" "err y = None"
      "num_decompressed_checksums y = 0" "num_compressed_checksums y = 0"
    by (rule example_indexer)
  have zl: "8 \<le> length (remaining z)" by (simp add: z(2))
  have zd: "2 = Uint32 (take 4 (remaining z))" by (simp add: z(2) Uint32_def)
  have zs: "2 = Uint32 (take 4 (drop 4 (remaining z)))" by (simp add: z(2) Uint32_def)
  have yl: "8 \<le> length (remaining y)" by (simp add: y(2))
  have yd: "2 = Uint32 (take 4 (remaining y))" by (simp add: y(2) Uint32_def)
  have ys: "3 = Uint32 (take 4 (drop 4 (remaining y)))" by (simp add: y(2) Uint32_def)
  have "fst (findBlock z) = None \<and> indexes (snd (findBlock z)) = [38]"
    using findBlock_data_corruption_iff [OF zl zd zs] z(3,5,6) by simp
  moreover have "fst (findBlock y) = Some (ErrorsNew ''lzo: data corruption'')"
    using findBlock_data_corruption_iff [OF yl yd ys] by simp
  ultimately show ?thesis
    by (simp add: z(1) y(1))
qed

text \<open>
  C8: on \<open>old_format_file\<close>, whose format version is below \<open>0x0940\<close>, whose header
  checksum at offset 51 is right, whose name is at the offsets 27 to 50 and whose two
  valid blocks, with \<open>dstLen\<close> 2 and 3, start at offset 55, the scan ends in \<open>io.EOF\<close> with
  the one offset 38. That offset lies inside the name, and the four bytes read there give
  1, which is the \<open>dstLen\<close> of no block of the file.
\<close>

theorem old_format_offset_inside_name:
  "Uint16 (take 2 old_format_body) < 0x0940 \<and>
   Uint32 (take 4 (drop 51 old_format_file)) = adler32_upd 1 old_format_body \<and>
   take 24 (drop 27 old_format_file) = old_format_name \<and>
   drop 55 old_format_file = concat (map block_bytes example_blocks) @ [0, 0, 0, 0] \<and>
   list_all (valid_block 0 0) example_blocks \<and>
   map (\<lambda>b. Uint32 (dst_field b)) example_blocks = [2, 3] \<and>
   (\<exists>z. NewIndexer \<lparr>content = old_format_file, fpos = 0, seekable = True\<rparr> = Inr z \<and>
        err (scan z) = Some EOF \<and> indexes (scan z) = [38] \<and>
        fst (read_uint32 (z\<lparr>f := snd (Seek_set (indexes (scan z) ! 0)
               \<lparr>content = old_format_file, fpos = 0, seekable = True\<rparr>)\<rparr>)) = Inr 1)"
proof -
  obtain z where z: "NewIndexer \<lparr>content = old_format_file, fpos = 0, seekable = True\<rparr> = Inr z"
    "err (scan z) = Some EOF" "indexes (scan z) = [38]"
    by (rule old_format_file_scan)
  have 1: "Uint16 (take 2 old_format_body) < 0x0940"
    by (simp add: old_format_body_def Uint16_def)
  have 2: "Uint32 (take 4 (drop 51 old_format_file)) = adler32_upd 1 old_format_body"
    unfolding old_format_checksum
    by (simp add: old_format_file_def old_format_body_def old_format_name_def lzoMagic_def Uint32_def)
  have 3: "drop 55 old_format_file = concat (map block_bytes example_blocks) @ [0, 0, 0, 0]"
    by (simp add: old_format_file_def old_format_body_def old_format_name_def lzoMagic_def)
  have 4: "map (\<lambda>b. Uint32 (dst_field b)) example_blocks = [2, 3]"
    by (simp add: example_blocks_def Uint32_def)
  have 5: "fst (read_uint32 (z\<lparr>f := snd (Seek_set (indexes (scan z) ! 0)
               \<lparr>content = old_format_file, fpos = 0, seekable = True\<rparr>)\<rparr>)) = Inr 1"
    using old_format_read_at_38 [of z] by (simp add: z(3))
  show ?thesis
    using 1 2 3 4 5 old_format_name_field example_blocks_valid z by blast
qed

text \<open>
  C9: a stream of at least 9 bytes that differs from the magic signature in one of its first
  9 positions makes header parsing fail with the format error \<open>lzo: invalid header\<close>.
\<close>

theorem bad_magic_invalid_header:
  assumes "9 \<le> length bs" and "i < 9" and "bs ! i \<noteq> lzoMagic ! i"
  shows "NewIndexer \<lparr>content = bs, fpos = 0, seekable = s\<rparr> = Inl (ErrorsNew ''lzo: invalid header'')
         \<and> FormatError (ErrorsNew ''lzo: invalid header'')"
proof -
  let ?z = "\<lparr>ModTime = - 62135596800, Name = [], flags = 0, version_f = 0,
       libraryVersion = 0, method_f = 0, num_compressed_checksums = 0,
       num_decompressed_checksums = 0, f = \<lparr>content = bs, fpos = 0, seekable = s\<rparr>,
       indexes = [], adler32 = 1, crc32 = 0, err = None, printed = []\<rparr>"
  have r: "remaining ?z = bs"
    by (simp add: remaining_new)
  have "take 9 bs ! i = bs ! i"
    using assms(2) by simp
  then have "take (length lzoMagic) (remaining ?z) \<noteq> lzoMagic"
    using assms(3) by (auto simp add: r length_lzoMagic)
  moreover have "length lzoMagic \<le> length (remaining ?z)"
    using assms(1) by (simp add: r length_lzoMagic)
  ultimately have "read_magic ?z = Inl (ErrorsNew ''lzo: invalid header'')"
    by (rule read_magic_bad [rotated])
  then show ?thesis
    by (simp add: NewIndexer_def readHeader_def and_then_def FormatError_def)
qed

theorem bad_magic_invalid_header_witness:
  "NewIndexer \<lparr>content = [0x89, 0x4c, 0x5a, 0x4e, 0x00, 0x0d, 0x0a, 0x1a, 0x0a, 0x10, 0x30],
      fpos = 0, seekable = True\<rparr> = Inl (ErrorsNew ''lzo: invalid header'')
   \<and> FormatError (ErrorsNew ''lzo: invalid header'')"
  using bad_magic_invalid_header
    [of "[0x89, 0x4c, 0x5a, 0x4e, 0x00, 0x0d, 0x0a, 0x1a, 0x0a, 0x10, 0x30]" 3 True]
  by (simp add: lzoMagic_def)

text \<open>
  C10: a call of \<open>findBlock\<close> that ends in a terminal condition (any error value, \<open>io.EOF\<close>
  of the sentinel included) leaves the offset list as it was; a call that returns nil has
  appended exactly the offset of the block whose size fields it has validated. So, on a
  seekable stream of valid blocks followed by bytes that the scanner does not accept, the
  final list of the scan is the list it started with, followed by the offsets of exactly
  those blocks.
\<close>

theorem findBlock_appends_only_validated:
  "(fst (findBlock z) \<noteq> None \<longrightarrow> indexes (snd (findBlock z)) = indexes z) \<and>
   (fst (findBlock z) = None \<longrightarrow>
      accepted (remaining z) \<and> indexes (snd (findBlock z)) = indexes z @ [int (fpos (f z))]) \<and>
   (list_all (valid_block (num_decompressed_checksums z) (num_compressed_checksums z)) bs \<and>
    remaining z = concat (map block_bytes bs) @ tail \<and> seekable (f z) \<and> \<not> accepted tail \<longrightarrow>
      indexes (scan z) = indexes z @ block_offsets (fpos (f z)) bs \<and>
      err (scan z) = Some (terminal_error tail))"
proof (intro conjI impI)
  assume "fst (findBlock z) \<noteq> None"
  then show "indexes (snd (findBlock z)) = indexes z"
    by (rule findBlock_terminal_indexes)
next
  assume n: "fst (findBlock z) = None"
  show "accepted (remaining z)"
    using n by (rule findBlock_None_accepted)
  then show "indexes (snd (findBlock z)) = indexes z @ [int (fpos (f z))]"
    using findBlock_None_accepted(2) [OF n]
    by (simp add: accepted_def findBlock_ok [OF _ refl refl])
next
  assume a: "list_all (valid_block (num_decompressed_checksums z) (num_compressed_checksums z)) bs \<and>
    remaining z = concat (map block_bytes bs) @ tail \<and> seekable (f z) \<and> \<not> accepted tail"
  then show "indexes (scan z) = indexes z @ block_offsets (fpos (f z)) bs"
    by (intro scan_blocks_terminal(1) [of z bs tail]) simp_all
  from a show "err (scan z) = Some (terminal_error tail)"
    by (intro scan_blocks_terminal(2) [of z bs tail]) simp_all
qed

theorem findBlock_appends_only_validated_witness:
  "(let z = projr (NewIndexer \<lparr>content = header_bytes example_header @
        concat (map block_bytes example_blocks) @ [0, 0, 0, 3, 0, 0, 0, 9, 1],
        fpos = 0, seekable = True\<rparr>)
    in fst (findBlock z) = None \<and> indexes (snd (findBlock z)) = [38] \<and>
       indexes (scan z) = [38, 48] \<and> err (scan z) = Some (ErrorsNew ''lzo: data corruption'')) \<and>
   (let y = projr (NewIndexer \<lparr>content = header_bytes example_header @ [0, 0, 0, 3, 0, 0, 0, 9, 1],
        fpos = 0, seekable = True\<rparr>)
    in fst (findBlock y) = Some (ErrorsNew ''lzo: data corruption'') \<and>
       indexes (snd (findBlock y)) = [])"
proof -
  let ?tail = "[0, 0, 0, 3, 0, 0, 0, 9, 1] :: byte list"
  obtain z where z: "NewIndexer \<lparr>content = header_bytes example_header @
        concat (map block_bytes example_blocks) @ ?tail, fpos = 0, seekable = True\<rparr> = Inr z"
      "remaining z = concat (map block_bytes example_blocks) @ ?tail" "fpos (f z) = 38"
      "content (f z) = header_bytes example_header @ concat (map block_bytes example_blocks) @ ?tail"
      "seekable (f z)" "indexes z = []" "err z = None"
      "num_decompressed_checksums z = 0" "num_compressed_checksums z = 0"
    by (rule example_indexer)
  obtain y where y: "NewIndexer \<lparr>content = header_bytes example_header @ ?tail,
        fpos = 0, seekable = True\<rparr> = Inr y"
      "remaining y = ?tail" "fpos (f y) = 38"
      "content (f y) = header_bytes example_header @ ?tail"
      "seekable (f y)" "indexes y = []" "err y = None"
      "num_decompressed_checksums y = 0" "num_compressed_checksums y = 0"
    by (rule example_indexer)
  have t: "\<not> accepted ?tail" "terminal_error ?tail = ErrorsNew ''lzo: data corruption''"
    by (simp_all add: accepted_def terminal_error_def Uint32_def)
  have za: "accepted (remaining z)"
    by (simp add: z(2) accepted_def example_blocks_def block_bytes_def Uint32_def)
  have zn: "fst (findBlock z) = None"
    using za z(5) by (rule findBlock_accepted)
  have yn: "fst (findBlock y) = Some (ErrorsNew ''lzo: data corruption'')"
    using findBlock_terminal [of y] t y(2,5) by simp
  have o: "block_offsets 38 example_blocks = [38, 48]"
    by (simp add: example_blocks_def block_bytes_def)
  have "indexes (snd (findBlock z)) = [38] \<and>
       indexes (scan z) = [38, 48] \<and> err (scan z) = Some (ErrorsNew ''lzo: data corruption'')"
    using findBlock_appends_only_validated [of z example_blocks ?tail] zn z(2,3,5,6,8,9) t
      example_blocks_valid
    by (simp add: o)
  moreover have "indexes (snd (findBlock y)) = []"
    using findBlock_appends_only_validated [of y "[]" "[]"] yn y(6) by simp
  ultimately show ?thesis
    using zn yn by (simp add: z(1) y(1))
qed

end
